theory Spec2Isabelle
  imports Complex_Main "HOL-Library.AList"
begin

section \<open>Python values and string operations\<close>

text \<open>
  Python values that occur in chunk metadata. A \<open>dict\<close> is an
  association list: Python dictionaries keep insertion order, and \<open>AList.update\<close>
  replaces the value of an existing key in place and appends a new key at the end, as
  \<open>d[k] = v\<close> does.

  Texts are \<open>string\<close>s, one \<open>char\<close> per code point, so the model covers the texts whose
  code points are below 256.
\<close>

datatype pyval = VInt int | VStr string

type_synonym pydict = "(string \<times> pyval) list"

text \<open>An exception, carrying the message that \<open>str(e)\<close> returns.\<close>

datatype error = Exception string

fun str_error :: "error \<Rightarrow> string" where
  "str_error (Exception msg) = msg"

text \<open>
  \<open>str.isspace\<close> on one character, for the code points below 256: the characters that
  \<open>str.strip()\<close> removes.
\<close>

definition is_space :: "char \<Rightarrow> bool" where
  "is_space c =
     (let n = (of_char c :: nat)
      in (9 \<le> n \<and> n \<le> 13) \<or> (28 \<le> n \<and> n \<le> 32) \<or> n = 133 \<or> n = 160)"

definition strip :: "string \<Rightarrow> string" where
  "strip s = rev (dropWhile is_space (rev (dropWhile is_space s)))"

text \<open>
  The index adjustment that slicing and \<open>str.rfind\<close> share: a negative index counts from
  the end, and the result is clamped to \<open>0 .. len\<close>.
\<close>

definition clamp_index :: "int \<Rightarrow> nat \<Rightarrow> nat" where
  "clamp_index i n = (if i < 0 then nat (max 0 (i + int n)) else min (nat i) n)"

text \<open>\<open>xs[s:e]\<close>.\<close>

definition slice :: "'a list \<Rightarrow> int \<Rightarrow> int \<Rightarrow> 'a list" where
  "slice xs s e =
     (let n = length xs; lo = clamp_index s n; hi = clamp_index e n
      in take (hi - lo) (drop lo xs))"

text \<open>
  \<open>rfind_between xs c lo hi\<close> scans the positions \<open>hi - 1, hi - 2, .., lo\<close> and returns the
  first (so the highest) one that holds \<open>c\<close>, or \<open>-1\<close>.
\<close>

fun rfind_between :: "'a list \<Rightarrow> 'a \<Rightarrow> nat \<Rightarrow> nat \<Rightarrow> int" where
  "rfind_between xs c lo 0 = -1"
| "rfind_between xs c lo (Suc h) =
     (if h < lo then -1
      else if xs ! h = c then int h
      else rfind_between xs c lo h)"

text \<open>\<open>xs.rfind(c, s, e)\<close> for a one-character \<open>c\<close>.\<close>

definition rfind :: "'a list \<Rightarrow> 'a \<Rightarrow> int \<Rightarrow> int \<Rightarrow> int" where
  "rfind xs c s e =
     (let n = length xs; lo = clamp_index s n; hi = clamp_index e n
      in rfind_between xs c lo hi)"

text \<open>\<open>str(n)\<close> for an integer: decimal digits, with a sign when negative.\<close>

definition digit_char :: "nat \<Rightarrow> char" where
  "digit_char d = ''0123456789'' ! d"

fun str_nat :: "nat \<Rightarrow> string" where
  "str_nat n =
     (if n < 10 then [digit_char n]
      else str_nat (n div 10) @ [digit_char (n mod 10)])"

declare str_nat.simps [simp del]

definition str_int :: "int \<Rightarrow> string" where
  "str_int i = (if i < 0 then CHR ''-'' # str_nat (nat (- i)) else str_nat (nat i))"

text \<open>\<open>sep.join(parts)\<close>.\<close>

fun join :: "string \<Rightarrow> string list \<Rightarrow> string" where
  "join sep [] = []"
| "join sep [p] = p"
| "join sep (p # q # ps) = p @ sep @ join sep (q # ps)"


section \<open>Document chunks and the chunker\<close>

text \<open>\<open>class DocumentChunk\<close> of \<open>document_processor.py\<close>.\<close>

record document_chunk =
  "text" :: string
  chunk_id :: string
  source_meta :: pydict

text \<open>The configuration that \<open>DocumentProcessor.__init__\<close> sets.\<close>

definition chunk_size :: int where
  "chunk_size = 1000"

definition overlap :: int where
  "overlap = 200"

text \<open>
  One iteration of the \<open>while\<close> loop of \<open>_create_text_chunks\<close>, in two parts: the window
  end after the optional snap to a space, and the cursor for the next iteration.
\<close>

definition window_end :: "string \<Rightarrow> int \<Rightarrow> int" where
  "window_end txt start =
     (let end_pos = start + chunk_size
      in if end_pos < int (length txt)
         then (let break_point = rfind txt CHR '' '' (end_pos - overlap) end_pos
               in if break_point > start then break_point else end_pos)
         else end_pos)"

definition next_start :: "string \<Rightarrow> int \<Rightarrow> int" where
  "next_start txt start =
     (let end_pos = window_end txt start
      in if end_pos < int (length txt) then end_pos - overlap else int (length txt))"

text \<open>The chunk that an iteration emits: \<open>{**base_metadata, "chunk_index": .., ..}\<close>.\<close>

definition make_chunk :: "string \<Rightarrow> pydict \<Rightarrow> int \<Rightarrow> int \<Rightarrow> int \<Rightarrow> document_chunk" where
  "make_chunk chunk_text base_metadata chunk_index start end_pos =
     \<lparr>text = chunk_text,
      chunk_id = ''chunk_'' @ str_int chunk_index,
      source_meta =
        AList.update ''end_char'' (VInt end_pos)
          (AList.update ''start_char'' (VInt start)
            (AList.update ''chunk_index'' (VInt chunk_index) base_metadata))\<rparr>"

lemma rfind_between_range:
  "rfind_between xs c lo hi = -1 \<or>
   (int lo \<le> rfind_between xs c lo hi \<and> rfind_between xs c lo hi < int hi)"
  by (induction hi) auto

lemma rfind_range:
  "rfind xs c s e = -1 \<or>
   (int (clamp_index s (length xs)) \<le> rfind xs c s e \<and>
    rfind xs c s e < int (clamp_index e (length xs)))"
  unfolding rfind_def Let_def by (rule rfind_between_range)

lemma window_end_lower:
  assumes "0 \<le> start"
  shows "start + chunk_size - overlap \<le> window_end txt start"
proof -
  let ?e = "start + chunk_size"
  let ?bp = "rfind txt CHR '' '' (?e - overlap) ?e"
  show ?thesis
  proof (cases "?e < int (length txt) \<and> ?bp > start")
    case False
    then show ?thesis
      by (auto simp: window_end_def Let_def chunk_size_def overlap_def)
  next
    case True
    then have we: "window_end txt start = ?bp"
      by (simp add: window_end_def Let_def)
    have "clamp_index (?e - overlap) (length txt) = nat (?e - overlap)"
      using assms True by (auto simp: clamp_index_def min_def chunk_size_def overlap_def)
    moreover have "int (clamp_index (?e - overlap) (length txt)) \<le> ?bp"
      using rfind_range [of "txt" "CHR '' ''" "?e - overlap" "?e"] True assms by linarith
    ultimately have "?e - overlap \<le> ?bp"
      using assms by (simp add: chunk_size_def overlap_def)
    with we show ?thesis by simp
  qed
qed

lemma window_end_upper:
  assumes "0 \<le> start"
  shows "window_end txt start \<le> start + chunk_size"
proof -
  let ?e = "start + chunk_size"
  have "rfind txt CHR '' '' (?e - overlap) ?e < ?e"
    using rfind_range [of "txt" "CHR '' ''" "?e - overlap" "?e"] assms
    by (auto simp: clamp_index_def chunk_size_def split: if_splits)
  then show ?thesis
    by (auto simp: window_end_def Let_def)
qed

lemma next_start_advance:
  assumes "0 \<le> start"
  shows "next_start txt start = int (length txt) \<or>
         start + chunk_size - 2 * overlap \<le> next_start txt start"
  using window_end_lower [OF assms, of "txt"] by (simp add: next_start_def Let_def)

lemma next_start_increases:
  assumes "0 \<le> start" and "start < int (length txt)"
  shows "start < next_start txt start"
  using next_start_advance [OF assms(1), of "txt"] assms(2)
  by (auto simp: chunk_size_def overlap_def)

lemma next_start_nonneg: "0 \<le> start \<Longrightarrow> 0 \<le> next_start txt start"
  using next_start_advance [of start "txt"] by (auto simp: chunk_size_def overlap_def)

text \<open>
  The \<open>while start < len(text)\<close> loop of \<open>_create_text_chunks\<close>. A window whose stripped
  text is empty emits nothing and leaves \<open>chunk_index\<close> as it is.

  The cursor \<open>start\<close> is \<open>0\<close> at the first iteration and never negative afterwards
  (\<open>next_start_nonneg\<close>); the conjunct \<open>0 \<le> start\<close> of the loop condition records this
  and is true at every iteration of a run of the source. It is what makes the recursion
  total: from a negative cursor the source's loop need not stop.
\<close>

function chunk_loop :: "string \<Rightarrow> pydict \<Rightarrow> int \<Rightarrow> int \<Rightarrow> document_chunk list" where
  "chunk_loop txt base_metadata start chunk_index =
     (if 0 \<le> start \<and> start < int (length txt)
      then (let end_pos = window_end txt start;
                chunk_text = strip (slice txt start end_pos)
            in if chunk_text \<noteq> []
               then make_chunk chunk_text base_metadata chunk_index start end_pos
                      # chunk_loop txt base_metadata (next_start txt start) (chunk_index + 1)
               else chunk_loop txt base_metadata (next_start txt start) chunk_index)
      else [])"
  by pat_completeness auto
termination
  by (relation "measure (\<lambda>(txt, base_metadata, start, chunk_index).
                  nat (int (length txt) - start))")
     (auto simp: next_start_increases intro!: diff_strict_left_mono)

declare chunk_loop.simps [simp del]

text \<open>\<open>DocumentProcessor._create_text_chunks\<close>.\<close>

definition create_text_chunks :: "string \<Rightarrow> pydict \<Rightarrow> document_chunk list" where
  "create_text_chunks txt base_metadata =
     (if int (length txt) \<le> chunk_size
      then [\<lparr>text = txt,
             chunk_id = ''chunk_0'',
             source_meta = AList.update ''chunk_index'' (VInt 0) base_metadata\<rparr>]
      else chunk_loop txt base_metadata 0 0)"

text \<open>A text is trimmed when it is not empty and neither starts nor ends with whitespace.\<close>

definition trimmed :: "string \<Rightarrow> bool" where
  "trimmed s = (s \<noteq> [] \<and> \<not> is_space (hd s) \<and> \<not> is_space (last s))"

text \<open>
  Reading an integer entry of a chunk's metadata, the test that a window is not blank, and
  the relation between two chunks that the loop emits one after the other.
\<close>

definition meta_int :: "document_chunk \<Rightarrow> string \<Rightarrow> int option" where
  "meta_int c k = (case map_of (source_meta c) k of Some (VInt i) \<Rightarrow> Some i | _ \<Rightarrow> None)"

definition nonblank_window :: "string \<Rightarrow> int \<Rightarrow> bool" where
  "nonblank_window txt start = (strip (slice txt start (window_end txt start)) \<noteq> [])"

definition follows :: "string \<Rightarrow> document_chunk \<Rightarrow> document_chunk \<Rightarrow> bool" where
  "follows txt c c' =
     (\<exists>e s'. meta_int c ''end_char'' = Some e \<and> meta_int c' ''start_char'' = Some s' \<and>
             e - overlap \<le> s' \<and> (nonblank_window txt (e - overlap) \<longrightarrow> s' = e - overlap))"

text \<open>
  What the download and the parsing libraries hand to the processor: the text of each page
  of a PDF, the paragraph texts and the tables (rows of cell texts) of a DOCX file, or the
  contents of a text file.
\<close>

datatype document =
  PdfFile "string list"
| DocxFile "string list" "string list list list"
| TextFile string

text \<open>\<open>_process_pdf\<close>: the pages that are not blank are chunked one by one.\<close>

definition process_pdf :: "string list \<Rightarrow> string \<Rightarrow> document_chunk list" where
  "process_pdf pages source_url =
     concat (map (\<lambda>(page_num, page_text).
        if strip page_text \<noteq> []
        then create_text_chunks page_text
               [(''source_url'', VStr source_url),
                (''page'', VInt (int page_num + 1)),
                (''document_type'', VStr ''pdf''),
                (''total_pages'', VInt (int (length pages)))]
        else []) (enumerate 0 pages))"

text \<open>\<open>_process_docx\<close>: paragraphs, then one line per table row, then one chunking.\<close>

definition docx_full_text :: "string list \<Rightarrow> string list list list \<Rightarrow> string" where
  "docx_full_text paragraphs tables =
     concat (map (\<lambda>p. if strip p \<noteq> [] then p @ [CHR 0x0A, CHR 0x0A] else []) paragraphs) @
     concat (map (\<lambda>row.
        (let row_text = map strip (filter (\<lambda>cell. strip cell \<noteq> []) row)
         in if row_text \<noteq> [] then join '' | '' row_text @ [CHR 0x0A] else []))
        (concat tables))"

definition process_docx ::
  "string list \<Rightarrow> string list list list \<Rightarrow> string \<Rightarrow> document_chunk list" where
  "process_docx paragraphs tables source_url =
     (let full_text = docx_full_text paragraphs tables
      in if strip full_text \<noteq> []
         then create_text_chunks full_text
                [(''source_url'', VStr source_url), (''document_type'', VStr ''docx'')]
         else [])"

text \<open>\<open>_process_text\<close>.\<close>

definition process_text :: "string \<Rightarrow> string \<Rightarrow> document_chunk list" where
  "process_text contents source_url =
     (if strip contents \<noteq> []
      then create_text_chunks contents
             [(''source_url'', VStr source_url), (''document_type'', VStr ''text'')]
      else [])"

text \<open>
  \<open>process_document_from_url\<close>. The parameter \<open>download\<close> stands for the HTTP request, the
  choice of the file type and the parsing library reading the temporary file; an
  exception of any of them is its \<open>Inl\<close>, which the \<open>except\<close> clause wraps.
\<close>

definition process_document_from_url ::
  "(string \<Rightarrow> error + document) \<Rightarrow> string \<Rightarrow> error + document_chunk list" where
  "process_document_from_url download url =
     (case download url of
        Inl e \<Rightarrow> Inl (Exception (''Failed to process document: '' @ str_error e))
      | Inr (PdfFile pages) \<Rightarrow> Inr (process_pdf pages url)
      | Inr (DocxFile paragraphs tables) \<Rightarrow> Inr (process_docx paragraphs tables url)
      | Inr (TextFile contents) \<Rightarrow> Inr (process_text contents url))"


section \<open>The embedding service\<close>

type_synonym vector = "real list"

text \<open>
  The dict that \<open>DocumentChunk.to_dict\<close> builds has exactly the keys \<open>text\<close>, \<open>chunk_id\<close>
  and \<open>source_meta\<close>, and \<open>search_similar\<close> adds \<open>similarity_score\<close> to a copy of it. Both
  are records here, so \<open>chunk.get("text", "")\<close> is the field: the key is always there.
  Scores are real numbers: the exact values of the floating-point scores.
\<close>

record chunk_dict =
  d_text :: string
  d_chunk_id :: string
  d_source_meta :: pydict

record search_result =
  r_text :: string
  r_chunk_id :: string
  r_source_meta :: pydict
  similarity_score :: real

definition to_dict :: "document_chunk \<Rightarrow> chunk_dict" where
  "to_dict c = \<lparr>d_text = text c, d_chunk_id = chunk_id c, d_source_meta = source_meta c\<rparr>"

text \<open>\<open>chunk_data = metadata.copy(); chunk_data["similarity_score"] = float(score)\<close>.\<close>

definition with_score :: "chunk_dict \<Rightarrow> real \<Rightarrow> search_result" where
  "with_score chunk_data score =
     \<lparr>r_text = d_text chunk_data,
      r_chunk_id = d_chunk_id chunk_data,
      r_source_meta = d_source_meta chunk_data,
      similarity_score = score\<rparr>"

text \<open>
  The state of an \<open>EmbeddingService\<close>: \<open>index\<close> is the list of vectors that the FAISS index
  holds, in the order they were added.
\<close>

record embedding_service =
  embedding_dim :: nat
  index :: "vector list"
  chunks_metadata :: "chunk_dict list"
  is_indexed :: bool

definition new_embedding_service :: "nat \<Rightarrow> embedding_service" where
  "new_embedding_service d =
     \<lparr>embedding_dim = d, index = [], chunks_metadata = [], is_indexed = False\<rparr>"

text \<open>
  The vector index is the external library \<open>faiss.IndexFlatIP\<close>; these three definitions
  model the calls that the service makes. \<open>add\<close> checks the shape of the batch and appends
  it. \<open>search\<close> checks the shape of the queries and that \<open>k\<close> is positive, and returns for
  each query \<open>k\<close> pairs of score and position, by descending inner product, filled up with
  the position \<open>-1\<close> when the index holds fewer than \<open>k\<close> vectors.
\<close>

definition inner_product :: "vector \<Rightarrow> vector \<Rightarrow> real" where
  "inner_product u v = sum_list (map2 (*) u v)"

definition faiss_add :: "nat \<Rightarrow> vector list \<Rightarrow> vector list \<Rightarrow> error + vector list" where
  "faiss_add d stored batch =
     (if batch \<noteq> [] \<and> list_all (\<lambda>v. length v = d) batch
      then Inr (stored @ batch)
      else Inl (Exception []))"

definition faiss_pad_score :: real where
  "faiss_pad_score = - 340282346638528859811704183484516925440"

definition ranked :: "vector list \<Rightarrow> vector \<Rightarrow> (real \<times> int) list" where
  "ranked stored q =
     sort_key (\<lambda>(score, idx). - score)
       (map (\<lambda>(i, v). (inner_product q v, int i)) (enumerate 0 stored))"

definition faiss_search ::
  "nat \<Rightarrow> vector list \<Rightarrow> vector list \<Rightarrow> int \<Rightarrow> error + (real \<times> int) list list" where
  "faiss_search d stored queries k =
     (if queries = [] \<or> \<not> list_all (\<lambda>q. length q = d) queries \<or> k \<le> 0
      then Inl (Exception [])
      else Inr (map (\<lambda>q. take (nat k) (ranked stored q @ replicate (nat k) (faiss_pad_score, -1)))
                  queries))"

text \<open>\<open>xs[i]\<close> on a Python list: a negative index counts from the end.\<close>

definition py_index :: "'a list \<Rightarrow> int \<Rightarrow> error + 'a" where
  "py_index xs i =
     (let n = int (length xs); j = (if i < 0 then n + i else i)
      in if 0 \<le> j \<and> j < n then Inr (xs ! nat j)
         else Inl (Exception ''list index out of range''))"

text \<open>
  \<open>embed_texts\<close>: the parameter \<open>encode\<close> is the embedding model
  (\<open>model.encode(texts, normalize_embeddings=True)\<close>), whose exception is raised again.
\<close>

definition embed_texts ::
  "(string list \<Rightarrow> error + vector list) \<Rightarrow> string list \<Rightarrow> error + vector list" where
  "embed_texts encode texts = (case encode texts of Inl e \<Rightarrow> Inl e | Inr embeddings \<Rightarrow> Inr embeddings)"

text \<open>
  \<open>index_chunks\<close> returns the outcome and the state it leaves. An exception leaves the state
  as it was when it was raised: the index reset, the metadata empty, \<open>is_indexed\<close> as
  before.
\<close>

definition index_chunks ::
  "(string list \<Rightarrow> error + vector list) \<Rightarrow> embedding_service \<Rightarrow> document_chunk list \<Rightarrow>
   (error + unit) \<times> embedding_service" where
  "index_chunks encode svc chunks =
     (let cleared = svc\<lparr>index := [], chunks_metadata := []\<rparr>;
          texts = map text chunks
      in case embed_texts encode texts of
           Inl e \<Rightarrow> (Inl e, cleared)
         | Inr embeddings \<Rightarrow>
             (case faiss_add (embedding_dim cleared) (index cleared) embeddings of
                Inl e \<Rightarrow> (Inl e, cleared)
              | Inr stored \<Rightarrow>
                  (Inr (),
                   cleared\<lparr>index := stored,
                           chunks_metadata := map to_dict chunks,
                           is_indexed := True\<rparr>)))"

text \<open>The \<open>for score, idx in zip(scores[0], indices[0])\<close> loop of \<open>search_similar\<close>.\<close>

fun collect_results ::
  "chunk_dict list \<Rightarrow> real \<Rightarrow> (real \<times> int) list \<Rightarrow> error + search_result list" where
  "collect_results metadata score_threshold [] = Inr []"
| "collect_results metadata score_threshold ((score, idx) # hits) =
     (if idx \<noteq> -1 \<and> score \<ge> score_threshold
      then (case py_index metadata idx of
              Inl e \<Rightarrow> Inl e
            | Inr chunk_data \<Rightarrow>
                (case collect_results metadata score_threshold hits of
                   Inl e \<Rightarrow> Inl e
                 | Inr results \<Rightarrow> Inr (with_score chunk_data score # results)))
      else collect_results metadata score_threshold hits)"

text \<open>\<open>search_similar\<close>; it reads the state and leaves it as it is.\<close>

definition search_similar ::
  "(string list \<Rightarrow> error + vector list) \<Rightarrow> embedding_service \<Rightarrow> string \<Rightarrow> int \<Rightarrow> real \<Rightarrow>
   error + search_result list" where
  "search_similar encode svc query top_k score_threshold =
     (if \<not> is_indexed svc then Inr []
      else case embed_texts encode [query] of
             Inl e \<Rightarrow> Inl e
           | Inr query_embedding \<Rightarrow>
               (case faiss_search (embedding_dim svc) (index svc) query_embedding top_k of
                  Inl e \<Rightarrow> Inl e
                | Inr rows \<Rightarrow>
                    (case rows of
                       [] \<Rightarrow> Inl (Exception ''index 0 is out of bounds for axis 0 with size 0'')
                     | row # _ \<Rightarrow> collect_results (chunks_metadata svc) score_threshold row)))"

text \<open>
  \<open>f"{score:.2f}"\<close>: the value rounded to the nearest hundredth, a tie going to the even
  neighbour, written with a sign when it is negative, at least one digit before the point
  and two digits after it.
\<close>

definition round_half_even :: "real \<Rightarrow> int" where
  "round_half_even x =
     (let f = \<lfloor>x\<rfloor>; r = x - of_int f
      in if r < 1 / 2 then f
         else if r > 1 / 2 then f + 1
         else if even f then f else f + 1)"

definition format_2f :: "real \<Rightarrow> string" where
  "format_2f x =
     (let n = nat (round_half_even (\<bar>x\<bar> * 100))
      in (if x < 0 then ''-'' else []) @ str_nat (n div 100) @ ''.'' @
         [digit_char (n mod 100 div 10), digit_char (n mod 10)])"

text \<open>
  \<open>get_context_for_query\<close>: the loop over \<open>enumerate(similar_chunks, 1)\<close>, then the join.
  The search is called with its default threshold \<open>0.5\<close>.
\<close>

fun context_parts :: "int \<Rightarrow> search_result list \<Rightarrow> string list" where
  "context_parts i [] = []"
| "context_parts i (chunk # rest) =
     (''[Context '' @ str_int i @ ''] (Score: '' @ format_2f (similarity_score chunk) @ '')'' @
        [CHR 0x0A] @ r_text chunk)
     # context_parts (i + 1) rest"

definition get_context_for_query ::
  "(string list \<Rightarrow> error + vector list) \<Rightarrow> embedding_service \<Rightarrow> string \<Rightarrow> int \<Rightarrow>
   error + string" where
  "get_context_for_query encode svc query max_chunks =
     (case search_similar encode svc query max_chunks (1 / 2) of
        Inl e \<Rightarrow> Inl e
      | Inr similar_chunks \<Rightarrow> Inr (join [CHR 0x0A, CHR 0x0A] (context_parts 1 similar_chunks)))"

text \<open>
  The context as the specification words it, to compare \<open>get_context_for_query\<close> with: one
  block per result, \<open>[Context rank] (Score: score to two decimals)\<close>, a newline and the
  chunk text, the rank counting from 1; the blocks joined by a blank line.
\<close>

definition context_block :: "nat \<Rightarrow> search_result \<Rightarrow> string" where
  "context_block rank r =
     ''[Context '' @ str_nat rank @ ''] (Score: '' @ format_2f (similarity_score r) @ '')'' @
     [CHR 0x0A] @ r_text r"

definition render_context :: "search_result list \<Rightarrow> string" where
  "render_context rs =
     join [CHR 0x0A, CHR 0x0A] (map (\<lambda>(rank, r). context_block rank r) (enumerate 1 rs))"

text \<open>The test of the search loop on one pair of score and position.\<close>

definition live :: "real \<Rightarrow> real \<times> int \<Rightarrow> bool" where
  "live th = (\<lambda>(score, idx). idx \<noteq> -1 \<and> th \<le> score)"


section \<open>The answer generator\<close>

definition system_prompt :: string where
  "system_prompt = join [CHR 0x0A]
     [''You are an expert assistant specializing in insurance, legal, HR, and compliance document analysis.'',
      [],
      ''Your task is to provide accurate, helpful answers based solely on the provided context. Follow these guidelines:'',
      [],
      ''1. Answer based only on the provided context'',
      ''2. If the context doesn't contain enough information, say so clearly'',
      ''3. Be specific and cite relevant details from the context'',
      ''4. For insurance/legal queries, be precise about terms, conditions, and limitations'',
      ''5. If asked about specific clauses, quote them directly when possible'',
      ''6. Maintain a professional, helpful tone'',
      ''7. Keep answers concise but comprehensive'']"

definition user_prompt :: "string \<Rightarrow> string \<Rightarrow> string" where
  "user_prompt query context = join [CHR 0x0A]
     [''Context from retrieved documents:'',
      context,
      [],
      ''Question: '' @ query,
      [],
      ''Please provide a comprehensive answer based on the context above.'']"

definition full_prompt :: "string \<Rightarrow> string \<Rightarrow> string" where
  "full_prompt query context = system_prompt @ [CHR 0x0A, CHR 0x0A] @ user_prompt query context"

text \<open>
  \<open>generate_answer\<close>. The parameter \<open>generate_content\<close> is the completion call together
  with the read of \<open>response.text\<close>; an exception of either is its \<open>Inl\<close>, which the
  \<open>except\<close> clause turns into the apology. The result is a string in both branches: the
  function has no way to raise.
\<close>

definition generate_answer :: "(string \<Rightarrow> error + string) \<Rightarrow> string \<Rightarrow> string \<Rightarrow> string" where
  "generate_answer generate_content query context =
     (case generate_content (full_prompt query context) of
        Inr response_text \<Rightarrow> strip response_text
      | Inl e \<Rightarrow>
          ''I apologize, but I encountered an error while processing your query: '' @ str_error e)"

text \<open>
  \<open>asyncio.gather(*tasks, return_exceptions=True)\<close> waits until every task is done and
  then reads the outcomes off the tasks in the order of its arguments: the result list
  does not depend on which task finished first, so the model takes the outcomes in
  argument order.
\<close>

definition gather :: "(error + 'a) list \<Rightarrow> (error + 'a) list" where
  "gather outcomes = outcomes"

text \<open>
  \<open>generate_batch_answers\<close>. \<open>zip\<close> stops at the shorter list. The outer \<open>except\<close> clause
  has no branch here: with \<open>return_exceptions=True\<close> the gather hands exceptions over as
  results.
\<close>

definition generate_batch_answers ::
  "(string \<Rightarrow> error + string) \<Rightarrow> string list \<Rightarrow> string list \<Rightarrow> string list" where
  "generate_batch_answers generate_content queries contexts =
     (let tasks = map (\<lambda>(query, context). Inr (generate_answer generate_content query context))
                    (zip queries contexts);
          results = gather tasks
      in map (\<lambda>result. case result of
                Inl e \<Rightarrow> ''Error processing query: '' @ str_error e
              | Inr answer \<Rightarrow> answer) results)"

text \<open>
  The tasks that \<open>generate_batch_answers\<close> hands to the gather, one per pair of query and
  context, and the completion of tasks in some order: each task that completes records
  its outcome at its own position. \<open>completed_slots\<close> gives what is recorded once the tasks
  listed in \<open>completion_order\<close> have completed.
\<close>

definition generation_tasks ::
  "(string \<Rightarrow> error + string) \<Rightarrow> string list \<Rightarrow> string list \<Rightarrow> (error + string) list" where
  "generation_tasks generate_content queries contexts =
     map (\<lambda>(query, context). Inr (generate_answer generate_content query context))
       (zip queries contexts)"

definition completed_slots :: "'a list \<Rightarrow> nat list \<Rightarrow> 'a option list" where
  "completed_slots outcomes completion_order =
     fold (\<lambda>i slots. if i < length slots then slots[i := Some (outcomes ! i)] else slots)
       completion_order (replicate (length outcomes) None)"


section \<open>The query processor\<close>

definition max_context_chunks :: int where
  "max_context_chunks = 3"

text \<open>The context loop of \<open>_process_questions_with_gemini\<close>; an exception ends it.\<close>

fun retrieve_contexts ::
  "(string list \<Rightarrow> error + vector list) \<Rightarrow> embedding_service \<Rightarrow> string list \<Rightarrow>
   error + string list" where
  "retrieve_contexts encode svc [] = Inr []"
| "retrieve_contexts encode svc (question # questions) =
     (case get_context_for_query encode svc question max_context_chunks of
        Inl e \<Rightarrow> Inl e
      | Inr context \<Rightarrow>
          (case retrieve_contexts encode svc questions of
             Inl e \<Rightarrow> Inl e
           | Inr contexts \<Rightarrow> Inr (context # contexts)))"

definition process_questions_with_gemini ::
  "(string list \<Rightarrow> error + vector list) \<Rightarrow> (string \<Rightarrow> error + string) \<Rightarrow>
   embedding_service \<Rightarrow> string list \<Rightarrow> error + string list" where
  "process_questions_with_gemini encode generate_content svc questions =
     (case retrieve_contexts encode svc questions of
        Inl e \<Rightarrow> Inl e
      | Inr contexts \<Rightarrow> Inr (generate_batch_answers generate_content questions contexts))"

text \<open>
  \<open>process_request\<close>: the three steps in sequence; any exception is wrapped and raised.
  The result comes with the state in which the call leaves the embedding service.
\<close>

definition failed_request :: "error \<Rightarrow> error" where
  "failed_request e = Exception (''Failed to process request: '' @ str_error e)"

definition process_request ::
  "(string \<Rightarrow> error + document) \<Rightarrow> (string list \<Rightarrow> error + vector list) \<Rightarrow>
   (string \<Rightarrow> error + string) \<Rightarrow> embedding_service \<Rightarrow> string \<Rightarrow> string list \<Rightarrow>
   (error + string list) \<times> embedding_service" where
  "process_request download encode generate_content svc document_url questions =
     (case process_document_from_url download document_url of
        Inl e \<Rightarrow> (Inl (failed_request e), svc)
      | Inr chunks \<Rightarrow>
          (case index_chunks encode svc chunks of
             (Inl e, svc') \<Rightarrow> (Inl (failed_request e), svc')
           | (Inr u, svc') \<Rightarrow>
               (case process_questions_with_gemini encode generate_content svc' questions of
                  Inl e \<Rightarrow> (Inl (failed_request e), svc')
                | Inr answers \<Rightarrow> (Inr answers, svc'))))"


section \<open>Example inputs\<close>

text \<open>A text of 1301 characters whose only space is at offset 900.\<close>

definition spaced_text :: string where
  "spaced_text = replicate 900 CHR ''a'' @ CHR '' '' # replicate 400 CHR ''b''"

text \<open>
  A text of 1801 characters: a letter, 1799 spaces, a letter. Its second window holds
  spaces only.
\<close>

definition gap_text :: string where
  "gap_text = CHR ''a'' # replicate 1799 CHR '' '' @ ''b''"

text \<open>The text of a short PDF page, as the parser returns it: with its final newline.\<close>

definition short_page :: string where
  "short_page = ''Hello world'' @ [CHR 0x0A]"

text \<open>
  An embedding model on a few texts, with unit vectors of dimension 2; it fails on a batch
  that holds the text \<open>boom\<close>. Three chunks, and the service that has indexed them.
\<close>

definition example_vector :: "string \<Rightarrow> vector" where
  "example_vector s =
     (if s = ''alpha'' then [1, 0]
      else if s = ''beta'' then [0, 1]
      else if s = ''gamma'' then [3 / 5, 4 / 5]
      else [4 / 5, 3 / 5])"

definition example_encode :: "string list \<Rightarrow> error + vector list" where
  "example_encode texts =
     (if ''boom'' \<in> set texts then Inl (Exception ''model failure'')
      else Inr (map example_vector texts))"

definition example_chunk :: "string \<Rightarrow> document_chunk" where
  "example_chunk s = \<lparr>text = s, chunk_id = ''chunk_0'', source_meta = [(''chunk_index'', VInt 0)]\<rparr>"

definition example_service :: embedding_service where
  "example_service =
     snd (index_chunks example_encode (new_embedding_service 2)
            [example_chunk ''alpha'', example_chunk ''beta'', example_chunk ''gamma''])"

text \<open>
  A completion capability that fails on one prompt, a download that yields a PDF with one
  short page, the chunk of that page, and the service that has indexed it.
\<close>

definition example_completion :: "string \<Rightarrow> error + string" where
  "example_completion prompt =
     (if prompt = full_prompt ''q2'' ''c2'' then Inl (Exception ''quota exceeded'')
      else Inr '' an answer '')"

definition example_download :: "string \<Rightarrow> error + document" where
  "example_download url = Inr (PdfFile [''alpha''])"

definition example_page_chunk :: document_chunk where
  "example_page_chunk =
     \<lparr>text = ''alpha'', chunk_id = ''chunk_0'',
      source_meta = [(''source_url'', VStr ''http://host/a.pdf''), (''page'', VInt 1),
                     (''document_type'', VStr ''pdf''), (''total_pages'', VInt 1),
                     (''chunk_index'', VInt 0)]\<rparr>"

definition example_page_service :: embedding_service where
  "example_page_service =
     \<lparr>embedding_dim = 2, index = [[1, 0]], chunks_metadata = [to_dict example_page_chunk],
      is_indexed = True\<rparr>"


section \<open>Properties of the chunker\<close>

subsection \<open>The backward search for a space\<close>

lemma rfind_between_none:
  "(\<forall>p. lo \<le> p \<and> p < hi \<longrightarrow> xs ! p \<noteq> c) \<Longrightarrow> rfind_between xs c lo hi = -1"
  by (induction hi) auto

lemma rfind_between_found:
  assumes "\<exists>p. lo \<le> p \<and> p < hi \<and> xs ! p = c"
  shows "\<exists>r. rfind_between xs c lo hi = int r \<and> lo \<le> r \<and> r < hi \<and> xs ! r = c \<and>
             (\<forall>q. r < q \<and> q < hi \<longrightarrow> xs ! q \<noteq> c)"
  using assms
proof (induction hi)
  case 0
  then show ?case by simp
next
  case (Suc h)
  then obtain p where p: "lo \<le> p" "p < Suc h" "xs ! p = c" by blast
  show ?case
  proof (cases "xs ! h = c")
    case True
    with p show ?thesis by (auto intro!: exI [of _ h])
  next
    case False
    with p have "p < h" by (metis less_Suc_eq)
    with p have "\<exists>p. lo \<le> p \<and> p < h \<and> xs ! p = c" by blast
    from Suc.IH [OF this] obtain r where r: "rfind_between xs c lo h = int r" "lo \<le> r" "r < h"
      "xs ! r = c" "\<forall>q. r < q \<and> q < h \<longrightarrow> xs ! q \<noteq> c" by blast
    have "\<forall>q. r < q \<and> q < Suc h \<longrightarrow> xs ! q \<noteq> c"
      using r(5) False by (metis less_Suc_eq)
    with r False show ?thesis by (auto intro!: exI [of _ r])
  qed
qed

lemma clamp_index_inside: "0 \<le> i \<Longrightarrow> i \<le> int n \<Longrightarrow> clamp_index i n = nat i"
  by (auto simp: clamp_index_def min_def)

lemma rfind_window:
  assumes "0 \<le> start" and "start + chunk_size < int (length txt)"
  shows "rfind txt c (start + chunk_size - overlap) (start + chunk_size) =
         rfind_between txt c (nat (start + chunk_size - overlap)) (nat (start + chunk_size))"
proof -
  have "clamp_index (start + chunk_size - overlap) (length txt) = nat (start + chunk_size - overlap)"
    using assms by (intro clamp_index_inside) (simp_all add: chunk_size_def overlap_def)
  moreover have "clamp_index (start + chunk_size) (length txt) = nat (start + chunk_size)"
    using assms by (intro clamp_index_inside) (simp_all add: chunk_size_def)
  ultimately show ?thesis by (simp add: rfind_def Let_def)
qed

lemma rfind_between_replicate:
  "c \<noteq> a \<Longrightarrow> hi \<le> n \<Longrightarrow> rfind_between (replicate n a @ ys) c lo hi = -1"
  by (rule rfind_between_none) (auto simp: nth_append)

lemma window_end_example1:
  "window_end (replicate 1500 CHR ''a'') 0 = 1000"
proof -
  have "rfind_between (replicate 1500 CHR ''a'' @ []) CHR '' '' 800 1000 = -1"
    by (rule rfind_between_replicate) simp_all
  then show ?thesis
    by (simp add: window_end_def Let_def chunk_size_def overlap_def rfind_def clamp_index_def)
qed

lemma spaced_text_nth: "p < 1301 \<Longrightarrow> spaced_text ! p = CHR '' '' \<longleftrightarrow> p = 900"
  by (auto simp: spaced_text_def nth_append nth_Cons split: nat.splits)

lemma window_end_last_space:
  assumes "0 \<le> start" and "start + chunk_size < int (length txt)"
  shows "if \<exists>p. start + chunk_size - overlap \<le> p \<and> p < start + chunk_size \<and> start < p \<and>
               txt ! nat p = CHR '' ''
         then start + chunk_size - overlap \<le> window_end txt start \<and>
              window_end txt start < start + chunk_size \<and>
              txt ! nat (window_end txt start) = CHR '' '' \<and>
              (\<forall>q. window_end txt start < q \<and> q < start + chunk_size \<longrightarrow>
                     txt ! nat q \<noteq> CHR '' '')
         else window_end txt start = start + chunk_size"
proof -
  let ?lo = "start + chunk_size - overlap"
  let ?hi = "start + chunk_size"
  let ?bp = "rfind txt CHR '' '' ?lo ?hi"
  have bp: "?bp = rfind_between txt CHR '' '' (nat ?lo) (nat ?hi)"
    by (rule rfind_window [OF assms])
  have lo0: "0 \<le> ?lo" "start < ?lo"
    using assms(1) by (simp_all add: chunk_size_def overlap_def)
  show ?thesis
  proof (cases "\<exists>p. ?lo \<le> p \<and> p < ?hi \<and> start < p \<and> txt ! nat p = CHR '' ''")
    case True
    then obtain p where p: "?lo \<le> p" "p < ?hi" "txt ! nat p = CHR '' ''" by blast
    then have "\<exists>p'. nat ?lo \<le> p' \<and> p' < nat ?hi \<and> txt ! p' = CHR '' ''"
      using lo0 by (intro exI [of _ "nat p"]) auto
    from rfind_between_found [OF this] bp obtain r where
      r: "?bp = int r" "nat ?lo \<le> r" "r < nat ?hi" "txt ! r = CHR '' ''"
         "\<forall>q. r < q \<and> q < nat ?hi \<longrightarrow> txt ! q \<noteq> CHR '' ''" by auto
    have gt: "start < ?bp" using r(1,2) lo0 by linarith
    have we: "window_end txt start = int r"
      using assms(2) gt r(1) by (simp add: window_end_def Let_def)
    have "\<forall>q. int r < q \<and> q < ?hi \<longrightarrow> txt ! nat q \<noteq> CHR '' ''"
    proof (intro allI impI)
      fix q assume "int r < q \<and> q < ?hi"
      then have "r < nat q \<and> nat q < nat ?hi" by linarith
      with r(5) show "txt ! nat q \<noteq> CHR '' ''" by blast
    qed
    with True we r lo0 show ?thesis by auto
  next
    case False
    have "\<forall>p'. nat ?lo \<le> p' \<and> p' < nat ?hi \<longrightarrow> txt ! p' \<noteq> CHR '' ''"
    proof (intro allI impI)
      fix p' assume a: "nat ?lo \<le> p' \<and> p' < nat ?hi"
      then have "?lo \<le> int p' \<and> int p' < ?hi \<and> start < int p'" using lo0 by linarith
      with False have "txt ! nat (int p') \<noteq> CHR '' ''" by blast
      then show "txt ! p' \<noteq> CHR '' ''" by simp
    qed
    from rfind_between_none [OF this] bp have "?bp = -1" by simp
    with assms False show ?thesis by (simp add: window_end_def Let_def)
  qed
qed

subsection \<open>The short text\<close>

text \<open>
  C3. A text of at most 1000 characters gives exactly one chunk. Its text is the input as
  it is, so the two are equal after trimming as well; its id is \<open>chunk_0\<close> and its
  \<open>chunk_index\<close> is 0.
\<close>

theorem single_chunk:
  assumes "int (length txt) \<le> chunk_size"
  shows "\<exists>c. create_text_chunks txt base_metadata = [c] \<and>
             text c = txt \<and> strip (text c) = strip txt \<and>
             chunk_id c = ''chunk_0'' \<and>
             map_of (source_meta c) ''chunk_index'' = Some (VInt 0)"
  using assms by (simp add: create_text_chunks_def AList.update_conv')

theorem single_chunk_witness:
  "int (length ''Hello world'') \<le> chunk_size \<and>
   create_text_chunks ''Hello world'' [(''document_type'', VStr ''text'')] =
     [\<lparr>text = ''Hello world'', chunk_id = ''chunk_0'',
       source_meta = [(''document_type'', VStr ''text''), (''chunk_index'', VInt 0)]\<rparr>]"
proof -
  have h: "int (length ''Hello world'') \<le> chunk_size" by (simp add: chunk_size_def)
  from single_chunk [OF h, of "[(''document_type'', VStr ''text'')]"]
  obtain c where "create_text_chunks ''Hello world'' [(''document_type'', VStr ''text'')] = [c]"
    by blast
  with h show ?thesis by (simp add: create_text_chunks_def)
qed

subsection \<open>Termination of the loop\<close>

lemma next_start_le:
  "0 \<le> start \<Longrightarrow> start \<le> int (length txt) \<Longrightarrow> next_start txt start \<le> int (length txt)"
  by (simp add: next_start_def Let_def overlap_def)

lemma cursor_reaches_end:
  "0 \<le> start \<Longrightarrow> start \<le> int (length txt) \<Longrightarrow>
   \<exists>n. int n \<le> (int (length txt) - start) div 600 + 1 \<and> (next_start txt ^^ n) start = int (length txt)"
proof (induction "nat (int (length txt) - start)" arbitrary: start rule: less_induct)
  case less
  show ?case
  proof (cases "start = int (length txt)")
    case True
    then show ?thesis by (intro exI [of _ 0]) simp
  next
    case False
    with less.prems have lt: "start < int (length txt)" by simp
    let ?s = "next_start txt start"
    show ?thesis
    proof (cases "?s = int (length txt)")
      case True
      have "0 \<le> (int (length txt) - start) div 600" using lt by simp
      with True show ?thesis by (intro exI [of _ 1]) simp
    next
      case ne: False
      with next_start_advance [OF less.prems(1), of "txt"]
      have adv: "start + 600 \<le> ?s" by (simp add: chunk_size_def overlap_def)
      have le: "?s \<le> int (length txt)" by (rule next_start_le [OF less.prems])
      have "0 \<le> ?s" using adv less.prems(1) by linarith
      from less.hyps [OF _ this le] adv lt obtain n where
        n: "int n \<le> (int (length txt) - ?s) div 600 + 1" "(next_start txt ^^ n) ?s = int (length txt)"
        by auto
      have "(int (length txt) - ?s) div 600 + 1 \<le> (int (length txt) - start) div 600"
      proof -
        have "(int (length txt) - ?s) div 600 \<le> (int (length txt) - start - 600) div 600"
          using adv by (intro zdiv_mono1) auto
        also have "\<dots> = (int (length txt) - start) div 600 - 1" by simp
        finally show ?thesis by simp
      qed
      with n show ?thesis
        by (intro exI [of _ "Suc n"]) (simp add: funpow_swap1)
    qed
  qed
qed

text \<open>
  C10. At every iteration of the loop the window ends at \<open>start + 800\<close> or later, and the
  cursor either becomes the length of the text or grows by at least 600; so it grows
  strictly, and from 0 it reaches the length of the text within \<open>len div 600 + 1\<close>
  iterations, where the loop stops.
\<close>

theorem cursor_progress:
  "(\<forall>start. 0 \<le> start \<and> start < int (length txt) \<longrightarrow>
      start + (chunk_size - overlap) \<le> window_end txt start \<and>
      (next_start txt start = int (length txt) \<or>
       start + (chunk_size - 2 * overlap) \<le> next_start txt start) \<and>
      start < next_start txt start) \<and>
   (\<exists>n. int n \<le> int (length txt) div 600 + 1 \<and>
        (next_start txt ^^ n) 0 = int (length txt))"
proof -
  have "\<exists>n. int n \<le> int (length txt) div 600 + 1 \<and> (next_start txt ^^ n) 0 = int (length txt)"
    using cursor_reaches_end [of 0 "txt"] by simp
  moreover have "\<forall>start. 0 \<le> start \<and> start < int (length txt) \<longrightarrow>
      start + (chunk_size - overlap) \<le> window_end txt start \<and>
      (next_start txt start = int (length txt) \<or>
       start + (chunk_size - 2 * overlap) \<le> next_start txt start) \<and>
      start < next_start txt start"
    using window_end_lower next_start_advance next_start_increases
    by (simp add: algebra_simps)
  ultimately show ?thesis by blast
qed

theorem cursor_progress_witness:
  "(0::int) \<le> 0 \<and> 0 < int (length (replicate 1500 CHR ''a'')) \<and>
   window_end (replicate 1500 CHR ''a'') 0 = 1000 \<and>
   next_start (replicate 1500 CHR ''a'') 0 = 800 \<and>
   0 + (chunk_size - overlap) \<le> window_end (replicate 1500 CHR ''a'') 0 \<and>
   0 < next_start (replicate 1500 CHR ''a'') 0"
proof -
  let ?t = "replicate 1500 CHR ''a''"
  have we: "window_end ?t 0 = 1000" by (rule window_end_example1)
  have ns: "next_start ?t 0 = 800"
    by (simp add: next_start_def Let_def we overlap_def)
  have h: "(0::int) \<le> 0 \<and> 0 < int (length ?t)" by simp
  from cursor_progress [of ?t] h
  have "0 + (chunk_size - overlap) \<le> window_end ?t 0 \<and> 0 < next_start ?t 0" by blast
  with we ns h show ?thesis by simp
qed

subsection \<open>Offsets and indices of the chunks of a long text\<close>

lemma meta_int_make_chunk:
  "meta_int (make_chunk ct md idx s e) ''chunk_index'' = Some idx"
  "meta_int (make_chunk ct md idx s e) ''start_char'' = Some s"
  "meta_int (make_chunk ct md idx s e) ''end_char'' = Some e"
  by (simp_all add: meta_int_def make_chunk_def AList.update_conv')

lemma chunk_id_make_chunk: "chunk_id (make_chunk ct md idx s e) = ''chunk_'' @ str_int idx"
  by (simp add: make_chunk_def)

lemma chunk_loop_beyond: "int (length txt) \<le> start \<Longrightarrow> chunk_loop txt md start idx = []"
  by (simp add: chunk_loop.simps)

lemma chunk_loop_step:
  assumes "0 \<le> start" and "start < int (length txt)"
  shows "chunk_loop txt md start idx =
           (if nonblank_window txt start
            then make_chunk (strip (slice txt start (window_end txt start))) md idx start
                   (window_end txt start)
                 # chunk_loop txt md (next_start txt start) (idx + 1)
            else chunk_loop txt md (next_start txt start) idx)"
  using assms by (subst chunk_loop.simps) (simp add: Let_def nonblank_window_def)

lemma chunk_loop_invariant:
  assumes "0 \<le> start"
  shows "(\<forall>i < length (chunk_loop t md start idx).
            meta_int (chunk_loop t md start idx ! i) ''chunk_index'' = Some (idx + int i) \<and>
            chunk_id (chunk_loop t md start idx ! i) = ''chunk_'' @ str_int (idx + int i)) \<and>
         (\<forall>c \<in> set (chunk_loop t md start idx).
            \<exists>s. meta_int c ''start_char'' = Some s \<and> start \<le> s) \<and>
         (nonblank_window t start \<longrightarrow>
            (\<forall>c rest. chunk_loop t md start idx = c # rest \<longrightarrow>
               meta_int c ''start_char'' = Some start)) \<and>
         successively (follows t) (chunk_loop t md start idx)"
  using assms
proof (induction t md start idx rule: chunk_loop.induct)
  case (1 t md start idx)
  show ?case
  proof (cases "start < int (length t)")
    case False
    then show ?thesis by (simp add: chunk_loop_beyond)
  next
    case lt: True
    let ?e = "window_end t start"
    let ?n = "next_start t start"
    have n0: "0 \<le> ?n" by (rule next_start_nonneg [OF "1.prems"])
    have inc: "start < ?n" by (rule next_start_increases [OF "1.prems" lt])
    show ?thesis
    proof (cases "nonblank_window t start")
      case False
      then have eq: "chunk_loop t md start idx = chunk_loop t md ?n idx"
        using chunk_loop_step [OF "1.prems" lt] by simp
      have nb: "\<not> strip (slice t start ?e) \<noteq> []"
        using False by (simp add: nonblank_window_def)
      from "1.IH"(2) [OF _ refl refl nb n0] "1.prems" lt
      have IH: "(\<forall>i < length (chunk_loop t md ?n idx).
            meta_int (chunk_loop t md ?n idx ! i) ''chunk_index'' = Some (idx + int i) \<and>
            chunk_id (chunk_loop t md ?n idx ! i) = ''chunk_'' @ str_int (idx + int i))"
        "(\<forall>c \<in> set (chunk_loop t md ?n idx).
            \<exists>s. meta_int c ''start_char'' = Some s \<and> ?n \<le> s)"
        "successively (follows t) (chunk_loop t md ?n idx)"
        by simp_all
      from IH(2) inc have "\<forall>c \<in> set (chunk_loop t md ?n idx).
            \<exists>s. meta_int c ''start_char'' = Some s \<and> start \<le> s"
        by (meson less_le_not_le order_trans linear)
      with IH(1,3) False show ?thesis unfolding eq by simp
    next
      case True
      let ?c = "make_chunk (strip (slice t start ?e)) md idx start ?e"
      let ?rest = "chunk_loop t md ?n (idx + 1)"
      have eq: "chunk_loop t md start idx = ?c # ?rest"
        using chunk_loop_step [OF "1.prems" lt] True by simp
      have nb: "strip (slice t start ?e) \<noteq> []"
        using True by (simp add: nonblank_window_def)
      from "1.IH"(1) [OF _ refl refl nb n0] "1.prems" lt
      have IH: "(\<forall>i < length ?rest.
            meta_int (?rest ! i) ''chunk_index'' = Some (idx + 1 + int i) \<and>
            chunk_id (?rest ! i) = ''chunk_'' @ str_int (idx + 1 + int i))"
        "(\<forall>c \<in> set ?rest. \<exists>s. meta_int c ''start_char'' = Some s \<and> ?n \<le> s)"
        "nonblank_window t ?n \<longrightarrow>
            (\<forall>c rest. ?rest = c # rest \<longrightarrow> meta_int c ''start_char'' = Some ?n)"
        "successively (follows t) ?rest"
        by simp_all
      have A: "\<forall>i < length (?c # ?rest).
            meta_int ((?c # ?rest) ! i) ''chunk_index'' = Some (idx + int i) \<and>
            chunk_id ((?c # ?rest) ! i) = ''chunk_'' @ str_int (idx + int i)"
      proof (intro allI impI)
        fix i assume "i < length (?c # ?rest)"
        then show "meta_int ((?c # ?rest) ! i) ''chunk_index'' = Some (idx + int i) \<and>
            chunk_id ((?c # ?rest) ! i) = ''chunk_'' @ str_int (idx + int i)"
        proof (cases i)
          case 0
          then show ?thesis by (simp add: meta_int_make_chunk chunk_id_make_chunk)
        next
          case (Suc j)
          with \<open>i < length (?c # ?rest)\<close> have "j < length ?rest" by simp
          with IH(1) have
            "meta_int (?rest ! j) ''chunk_index'' = Some (idx + 1 + int j) \<and>
             chunk_id (?rest ! j) = ''chunk_'' @ str_int (idx + 1 + int j)" by blast
          with Suc show ?thesis by (simp add: add.commute add.left_commute)
        qed
      qed
      have B: "\<forall>c \<in> set (?c # ?rest). \<exists>s. meta_int c ''start_char'' = Some s \<and> start \<le> s"
      proof
        fix c assume "c \<in> set (?c # ?rest)"
        then consider "c = ?c" | "c \<in> set ?rest" by auto
        then show "\<exists>s. meta_int c ''start_char'' = Some s \<and> start \<le> s"
        proof cases
          case 1
          then show ?thesis by (simp add: meta_int_make_chunk)
        next
          case 2
          with IH(2) obtain s where "meta_int c ''start_char'' = Some s" "?n \<le> s" by blast
          with inc show ?thesis by (intro exI [of _ s]) simp
        qed
      qed
      have D: "successively (follows t) (?c # ?rest)"
      proof (cases ?rest)
        case Nil
        then show ?thesis by simp
      next
        case (Cons c' rest')
        then have "?n < int (length t)"
          using chunk_loop_beyond [of t "?n" md "idx + 1"] by (cases "?n < int (length t)") auto
        then have n: "?n = ?e - overlap"
          by (auto simp: next_start_def Let_def split: if_splits)
        from IH(2) Cons obtain s' where s': "meta_int c' ''start_char'' = Some s'" "?n \<le> s'"
          by auto
        from IH(3) Cons s' have "nonblank_window t ?n \<longrightarrow> s' = ?n" by simp
        with s' n have "follows t ?c c'"
          by (auto simp: follows_def meta_int_make_chunk)
        with IH(4) Cons show ?thesis by simp
      qed
      from A B D show ?thesis unfolding eq by (simp add: meta_int_make_chunk)
    qed
  qed
qed

lemma rfind_between_hit: "xs ! h = c \<Longrightarrow> lo \<le> h \<Longrightarrow> rfind_between xs c lo (Suc h) = int h"
  by simp

lemma length_gap_text: "length gap_text = 1801"
  by (simp add: gap_text_def)

lemma gap_text_nth: "0 < p \<Longrightarrow> p < 1800 \<Longrightarrow> gap_text ! p = CHR '' ''"
  by (cases p) (simp_all add: gap_text_def nth_append)

lemma is_space_space: "is_space CHR '' ''"
  by (simp add: is_space_def)

lemma dropWhile_all: "\<forall>c \<in> set s. P c \<Longrightarrow> dropWhile P s = []"
  by (induction s) simp_all

lemma strip_blank: "\<forall>c \<in> set s. is_space c \<Longrightarrow> strip s = []"
  by (simp add: strip_def dropWhile_all)

lemma dropWhile_spaces:
  "dropWhile is_space (replicate n CHR '' '' @ ys) = dropWhile is_space ys"
  by (induction n) (simp_all add: is_space_space)

lemma not_space_letters: "\<not> is_space CHR ''a''" "\<not> is_space CHR ''b''"
  by (simp_all add: is_space_def)

lemma window_end_gap_0: "window_end gap_text 0 = 999"
proof -
  have "rfind_between gap_text CHR '' '' 800 (Suc 999) = int 999"
    by (rule rfind_between_hit) (simp_all add: gap_text_nth)
  then have "rfind gap_text CHR '' '' 800 1000 = 999"
    by (simp add: rfind_def Let_def clamp_index_def length_gap_text)
  then show ?thesis
    by (simp add: window_end_def Let_def chunk_size_def overlap_def length_gap_text)
qed

lemma window_end_gap_799: "window_end gap_text 799 = 1798"
proof -
  have "rfind_between gap_text CHR '' '' 1599 (Suc 1798) = int 1798"
    by (rule rfind_between_hit) (simp_all add: gap_text_nth)
  then have "rfind gap_text CHR '' '' 1599 1799 = 1798"
    by (simp add: rfind_def Let_def clamp_index_def length_gap_text)
  then show ?thesis
    by (simp add: window_end_def Let_def chunk_size_def overlap_def length_gap_text)
qed

lemma window_end_gap_1598: "window_end gap_text 1598 = 2598"
  by (simp add: window_end_def Let_def chunk_size_def length_gap_text)

lemma slice_gap_0: "slice gap_text 0 999 = CHR ''a'' # replicate 998 CHR '' ''"
  by (simp add: slice_def Let_def clamp_index_def gap_text_def)

lemma slice_gap_799: "slice gap_text 799 1798 = replicate 999 CHR '' ''"
  by (simp add: slice_def Let_def clamp_index_def gap_text_def)

lemma slice_gap_1598: "slice gap_text 1598 2598 = replicate 202 CHR '' '' @ ''b''"
  by (simp add: slice_def Let_def clamp_index_def gap_text_def)

lemma strip_gap_0: "strip (CHR ''a'' # replicate 998 CHR '' '') = ''a''"
  by (simp add: strip_def not_space_letters dropWhile_spaces)

lemma strip_gap_799: "strip (replicate 999 CHR '' '') = []"
  by (rule strip_blank) (simp add: is_space_space)

lemma strip_gap_1598: "strip (replicate 202 CHR '' '' @ ''b'') = ''b''"
  by (simp add: strip_def not_space_letters dropWhile_spaces)

lemma chunks_gap_text:
  "create_text_chunks gap_text md =
     [make_chunk ''a'' md 0 0 999, make_chunk ''b'' md 1 1598 2598]"
proof -
  have n0: "next_start gap_text 0 = 799"
    by (simp add: next_start_def Let_def window_end_gap_0 overlap_def length_gap_text)
  have n1: "next_start gap_text 799 = 1598"
    by (simp add: next_start_def Let_def window_end_gap_799 overlap_def length_gap_text)
  have n2: "next_start gap_text 1598 = 1801"
    by (simp add: next_start_def Let_def window_end_gap_1598 overlap_def length_gap_text)
  have w0: "nonblank_window gap_text 0"
    by (simp add: nonblank_window_def window_end_gap_0 slice_gap_0 strip_gap_0)
  have w1: "\<not> nonblank_window gap_text 799"
    by (simp add: nonblank_window_def window_end_gap_799 slice_gap_799 strip_gap_799)
  have w2: "nonblank_window gap_text 1598"
    by (simp add: nonblank_window_def window_end_gap_1598 slice_gap_1598 strip_gap_1598)
  have l3: "chunk_loop gap_text md 1801 2 = []"
    by (rule chunk_loop_beyond) (simp add: length_gap_text)
  have l2: "chunk_loop gap_text md 1598 1 = [make_chunk ''b'' md 1 1598 2598]"
    by (subst chunk_loop_step)
       (simp_all add: length_gap_text w2 n2 l3 window_end_gap_1598 slice_gap_1598 strip_gap_1598)
  have l1: "chunk_loop gap_text md 799 1 = [make_chunk ''b'' md 1 1598 2598]"
    by (subst chunk_loop_step) (simp_all add: length_gap_text w1 n1 l2)
  have l0: "chunk_loop gap_text md 0 0 =
      [make_chunk ''a'' md 0 0 999, make_chunk ''b'' md 1 1598 2598]"
    by (subst chunk_loop_step)
       (simp_all add: length_gap_text w0 n0 l1 window_end_gap_0 slice_gap_0 strip_gap_0)
  then show ?thesis
    by (simp add: create_text_chunks_def chunk_size_def length_gap_text)
qed

lemma next_start_inside:
  assumes "0 \<le> start" and "start + chunk_size < int (length txt)"
  shows "next_start txt start = window_end txt start - overlap"
  using window_end_upper [OF assms(1), of "txt"] assms(2)
  by (simp add: next_start_def Let_def)

lemma text_make_chunk: "text (make_chunk ct md idx s e) = ct"
  by (simp add: make_chunk_def)

lemma chunk_loop_windows:
  assumes "0 \<le> start" and "c \<in> set (chunk_loop t md start idx)"
  shows "\<exists>s. start \<le> s \<and> s < int (length t) \<and>
             meta_int c ''start_char'' = Some s \<and>
             meta_int c ''end_char'' = Some (window_end t s) \<and>
             text c = strip (slice t s (window_end t s))"
  using assms
proof (induction t md start idx rule: chunk_loop.induct)
  case (1 t md start idx)
  show ?case
  proof (cases "start < int (length t)")
    case False
    with "1.prems" show ?thesis by (simp add: chunk_loop_beyond)
  next
    case lt: True
    let ?e = "window_end t start"
    let ?n = "next_start t start"
    have n0: "0 \<le> ?n" by (rule next_start_nonneg [OF "1.prems"(1)])
    have inc: "start < ?n" by (rule next_start_increases [OF "1.prems"(1) lt])
    have g: "0 \<le> start \<and> start < int (length t)" using "1.prems"(1) lt by simp
    show ?thesis
    proof (cases "strip (slice t start ?e) \<noteq> []")
      case nb: True
      then have "chunk_loop t md start idx =
          make_chunk (strip (slice t start ?e)) md idx start ?e # chunk_loop t md ?n (idx + 1)"
        using chunk_loop_step [OF "1.prems"(1) lt] by (simp add: nonblank_window_def)
      with "1.prems"(2) consider
        "c = make_chunk (strip (slice t start ?e)) md idx start ?e"
        | "c \<in> set (chunk_loop t md ?n (idx + 1))" by auto
      then show ?thesis
      proof cases
        case 1
        then show ?thesis using lt
          by (intro exI [of _ start]) (simp add: meta_int_make_chunk text_make_chunk)
      next
        case 2
        from "1.IH"(1) [OF g refl refl nb n0 2] obtain s where
          "?n \<le> s" "s < int (length t)" "meta_int c ''start_char'' = Some s"
          "meta_int c ''end_char'' = Some (window_end t s)"
          "text c = strip (slice t s (window_end t s))" by blast
        with inc show ?thesis by (intro exI [of _ s]) simp
      qed
    next
      case b: False
      then have "chunk_loop t md start idx = chunk_loop t md ?n idx"
        using chunk_loop_step [OF "1.prems"(1) lt] by (simp add: nonblank_window_def)
      with "1.prems"(2) have 2: "c \<in> set (chunk_loop t md ?n idx)" by simp
      from "1.IH"(2) [OF g refl refl b n0 2] obtain s where
          "?n \<le> s" "s < int (length t)" "meta_int c ''start_char'' = Some s"
          "meta_int c ''end_char'' = Some (window_end t s)"
          "text c = strip (slice t s (window_end t s))" by blast
      with inc show ?thesis by (intro exI [of _ s]) simp
    qed
  qed
qed

lemma strip_id: "trimmed s \<Longrightarrow> strip s = s"
proof -
  assume t: "trimmed s"
  then have a: "dropWhile is_space s = s" by (cases s) (simp_all add: trimmed_def)
  from t have "rev s \<noteq> []" "\<not> is_space (hd (rev s))" by (simp_all add: trimmed_def hd_rev)
  then have "dropWhile is_space (rev s) = rev s" by (cases "rev s") simp_all
  with a show ?thesis by (simp add: strip_def)
qed

lemma slice_spaced_0: "slice spaced_text 0 900 = replicate 900 CHR ''a''"
  by (simp add: slice_def Let_def clamp_index_def spaced_text_def)

lemma strip_letters: "strip (replicate 900 CHR ''a'') = replicate 900 CHR ''a''"
  by (rule strip_id) (simp add: trimmed_def not_space_letters)

lemma slice_letters_0: "slice (replicate 1500 CHR ''a'') 0 1000 = replicate 1000 CHR ''a''"
  by (simp add: slice_def Let_def clamp_index_def)

lemma strip_letters_1000: "strip (replicate 1000 CHR ''a'') = replicate 1000 CHR ''a''"
  by (rule strip_id) (simp add: trimmed_def not_space_letters)

text \<open>
  C2. In an iteration of the loop whose tentative end \<open>start + 1000\<close> is before the end of
  the text, the window ends at the last space of the range \<open>[start + 800, start + 1000)\<close>
  when the range holds a space (every position of the range is beyond \<open>start\<close>), and at
  \<open>start + 1000\<close> when it holds none. The iteration slices the text from \<open>start\<close> to that
  end, emits the stripped slice with that end as \<open>end_char\<close> unless it is blank, and goes on
  200 characters before that end; no branch raises. For a long text the chunker is this
  loop from 0, and every chunk it returns records the window end of its own start.
\<close>

theorem window_end_snap:
  assumes "0 \<le> start" and "start + chunk_size < int (length txt)"
  shows "(if \<exists>p. start + chunk_size - overlap \<le> p \<and> p < start + chunk_size \<and> start < p \<and>
               txt ! nat p = CHR '' ''
          then start + chunk_size - overlap \<le> window_end txt start \<and>
               window_end txt start < start + chunk_size \<and>
               txt ! nat (window_end txt start) = CHR '' '' \<and>
               (\<forall>q. window_end txt start < q \<and> q < start + chunk_size \<longrightarrow>
                      txt ! nat q \<noteq> CHR '' '')
          else window_end txt start = start + chunk_size) \<and>
         chunk_loop txt md start idx =
           (if strip (slice txt start (window_end txt start)) \<noteq> []
            then make_chunk (strip (slice txt start (window_end txt start))) md idx start
                   (window_end txt start)
                 # chunk_loop txt md (window_end txt start - overlap) (idx + 1)
            else chunk_loop txt md (window_end txt start - overlap) idx) \<and>
         text (make_chunk (strip (slice txt start (window_end txt start))) md idx start
                 (window_end txt start)) = strip (slice txt start (window_end txt start)) \<and>
         meta_int (make_chunk (strip (slice txt start (window_end txt start))) md idx start
                 (window_end txt start)) ''end_char'' = Some (window_end txt start) \<and>
         create_text_chunks txt md = chunk_loop txt md 0 0 \<and>
         (\<forall>c \<in> set (create_text_chunks txt md).
            \<exists>s. 0 \<le> s \<and> s < int (length txt) \<and>
                meta_int c ''start_char'' = Some s \<and>
                meta_int c ''end_char'' = Some (window_end txt s) \<and>
                text c = strip (slice txt s (window_end txt s)))"
proof -
  have lt: "start < int (length txt)" using assms by (simp add: chunk_size_def)
  have long: "\<not> int (length txt) \<le> chunk_size" using assms by simp
  have A: "if \<exists>p. start + chunk_size - overlap \<le> p \<and> p < start + chunk_size \<and> start < p \<and>
               txt ! nat p = CHR '' ''
          then start + chunk_size - overlap \<le> window_end txt start \<and>
               window_end txt start < start + chunk_size \<and>
               txt ! nat (window_end txt start) = CHR '' '' \<and>
               (\<forall>q. window_end txt start < q \<and> q < start + chunk_size \<longrightarrow>
                      txt ! nat q \<noteq> CHR '' '')
          else window_end txt start = start + chunk_size"
    by (rule window_end_last_space [OF assms])
  have B: "chunk_loop txt md start idx =
           (if strip (slice txt start (window_end txt start)) \<noteq> []
            then make_chunk (strip (slice txt start (window_end txt start))) md idx start
                   (window_end txt start)
                 # chunk_loop txt md (window_end txt start - overlap) (idx + 1)
            else chunk_loop txt md (window_end txt start - overlap) idx)"
    using chunk_loop_step [OF assms(1) lt, of md idx] next_start_inside [OF assms]
    by (simp add: nonblank_window_def)
  have C: "create_text_chunks txt md = chunk_loop txt md 0 0"
    using long by (simp add: create_text_chunks_def)
  have D: "\<forall>c \<in> set (create_text_chunks txt md).
            \<exists>s. 0 \<le> s \<and> s < int (length txt) \<and>
                meta_int c ''start_char'' = Some s \<and>
                meta_int c ''end_char'' = Some (window_end txt s) \<and>
                text c = strip (slice txt s (window_end txt s))"
    unfolding C using chunk_loop_windows [of 0 _ "txt" md 0] by simp
  have E: "text (make_chunk (strip (slice txt start (window_end txt start))) md idx start
                 (window_end txt start)) = strip (slice txt start (window_end txt start))"
    by (rule text_make_chunk)
  have F: "meta_int (make_chunk (strip (slice txt start (window_end txt start))) md idx start
                 (window_end txt start)) ''end_char'' = Some (window_end txt start)"
    by (rule meta_int_make_chunk)
  show ?thesis using A B E F C D by (intro conjI) assumption+
qed

theorem window_end_snap_witness:
  "(0::int) \<le> 0 \<and> 0 + chunk_size < int (length spaced_text) \<and>
   window_end spaced_text 0 = 900 \<and>
   create_text_chunks spaced_text [] =
     make_chunk (replicate 900 CHR ''a'') [] 0 0 900 # chunk_loop spaced_text [] 700 1 \<and>
   meta_int (hd (create_text_chunks spaced_text [])) ''end_char'' = Some 900 \<and>
   0 + chunk_size < int (length (replicate 1500 CHR ''a'')) \<and>
   window_end (replicate 1500 CHR ''a'') 0 = 0 + chunk_size \<and>
   create_text_chunks (replicate 1500 CHR ''a'') [] =
     make_chunk (replicate 1000 CHR ''a'') [] 0 0 1000
       # chunk_loop (replicate 1500 CHR ''a'') [] 800 1 \<and>
   meta_int (hd (create_text_chunks (replicate 1500 CHR ''a'') [])) ''end_char'' = Some 1000"
proof -
  have h: "(0::int) \<le> 0" "0 + chunk_size < int (length spaced_text)"
    by (simp_all add: spaced_text_def chunk_size_def)
  have ex: "\<exists>p. 0 + chunk_size - overlap \<le> p \<and> p < 0 + chunk_size \<and> 0 < p \<and>
               spaced_text ! nat p = CHR '' ''"
    by (intro exI [of _ 900]) (simp add: spaced_text_nth chunk_size_def overlap_def)
  note w = window_end_snap [OF h, of "[]" 0]
  from w ex
  have r: "0 + chunk_size - overlap \<le> window_end spaced_text 0"
          "window_end spaced_text 0 < 0 + chunk_size"
          "spaced_text ! nat (window_end spaced_text 0) = CHR '' ''"
    by (simp_all only: if_True)
  from r(1,2) have "nat (window_end spaced_text 0) < 1301"
    by (simp add: chunk_size_def)
  with r(3) have "nat (window_end spaced_text 0) = 900" by (simp add: spaced_text_nth)
  with r(1) have a: "window_end spaced_text 0 = 900"
    by (simp add: chunk_size_def overlap_def)
  from w have "create_text_chunks spaced_text [] = chunk_loop spaced_text [] 0 0"
    and "chunk_loop spaced_text [] 0 0 =
           (if strip (slice spaced_text 0 (window_end spaced_text 0)) \<noteq> []
            then make_chunk (strip (slice spaced_text 0 (window_end spaced_text 0))) [] 0 0
                   (window_end spaced_text 0)
                 # chunk_loop spaced_text [] (window_end spaced_text 0 - overlap) (0 + 1)
            else chunk_loop spaced_text [] (window_end spaced_text 0 - overlap) 0)"
    by blast+
  then have c: "create_text_chunks spaced_text [] =
     make_chunk (replicate 900 CHR ''a'') [] 0 0 900 # chunk_loop spaced_text [] 700 1"
    by (simp add: a slice_spaced_0 strip_letters overlap_def)
  let ?t = "replicate 1500 CHR ''a''"
  have h2: "(0::int) \<le> 0" "0 + chunk_size < int (length ?t)"
    by (simp_all add: chunk_size_def)
  have nex: "\<not> (\<exists>p. 0 + chunk_size - overlap \<le> p \<and> p < 0 + chunk_size \<and> 0 < p \<and>
               ?t ! nat p = CHR '' '')"
    by (auto simp: chunk_size_def)
  note w2 = window_end_snap [OF h2, of "[]" 0]
  from w2 nex have b: "window_end ?t 0 = 0 + chunk_size"
    by (simp only: if_False)
  from w2 have "create_text_chunks ?t [] = chunk_loop ?t [] 0 0"
    and "chunk_loop ?t [] 0 0 =
           (if strip (slice ?t 0 (window_end ?t 0)) \<noteq> []
            then make_chunk (strip (slice ?t 0 (window_end ?t 0))) [] 0 0 (window_end ?t 0)
                 # chunk_loop ?t [] (window_end ?t 0 - overlap) (0 + 1)
            else chunk_loop ?t [] (window_end ?t 0 - overlap) 0)"
    by blast+
  then have d: "create_text_chunks ?t [] =
     make_chunk (replicate 1000 CHR ''a'') [] 0 0 1000 # chunk_loop ?t [] 800 1"
    by (simp add: b chunk_size_def slice_letters_0 strip_letters_1000 overlap_def)
  from a b c d h h2 show ?thesis by (simp add: meta_int_make_chunk)
qed

text \<open>
  C1, as the code has it. For a text of more than 1000 characters the emitted chunks carry
  the indices 0, 1, 2, .. and the ids \<open>chunk_0\<close>, \<open>chunk_1\<close>, ..; and for two chunks emitted
  one after the other, \<open>start_char\<close> of the second is at least \<open>end_char - 200\<close> of the
  first. It is equal to \<open>end_char - 200\<close>, and so at most \<open>end_char\<close>, unless the window
  that starts at \<open>end_char - 200\<close> is blank: a blank window emits no chunk, and the next
  chunk starts further on.
\<close>

theorem chunk_boundaries:
  assumes "chunk_size < int (length txt)"
  shows "(\<forall>i < length (create_text_chunks txt md).
            meta_int (create_text_chunks txt md ! i) ''chunk_index'' = Some (int i) \<and>
            chunk_id (create_text_chunks txt md ! i) = ''chunk_'' @ str_int (int i)) \<and>
         (\<forall>i. Suc i < length (create_text_chunks txt md) \<longrightarrow>
            (\<exists>e s'. meta_int (create_text_chunks txt md ! i) ''end_char'' = Some e \<and>
                    meta_int (create_text_chunks txt md ! Suc i) ''start_char'' = Some s' \<and>
                    e - overlap \<le> s' \<and>
                    (strip (slice txt (e - overlap) (window_end txt (e - overlap))) \<noteq> [] \<longrightarrow>
                       s' = e - overlap \<and> s' \<le> e)))"
proof -
  have eq: "create_text_chunks txt md = chunk_loop txt md 0 0"
    using assms by (simp add: create_text_chunks_def)
  from chunk_loop_invariant [of 0 "txt" md 0]
  have A: "\<forall>i < length (chunk_loop txt md 0 0).
            meta_int (chunk_loop txt md 0 0 ! i) ''chunk_index'' = Some (int i) \<and>
            chunk_id (chunk_loop txt md 0 0 ! i) = ''chunk_'' @ str_int (int i)"
    and D: "successively (follows txt) (chunk_loop txt md 0 0)"
    by simp_all
  from D have "\<forall>i. Suc i < length (chunk_loop txt md 0 0) \<longrightarrow>
      follows txt (chunk_loop txt md 0 0 ! i) (chunk_loop txt md 0 0 ! Suc i)"
    by (simp add: successively_conv_nth)
  then have "\<forall>i. Suc i < length (chunk_loop txt md 0 0) \<longrightarrow>
            (\<exists>e s'. meta_int (chunk_loop txt md 0 0 ! i) ''end_char'' = Some e \<and>
                    meta_int (chunk_loop txt md 0 0 ! Suc i) ''start_char'' = Some s' \<and>
                    e - overlap \<le> s' \<and>
                    (strip (slice txt (e - overlap) (window_end txt (e - overlap))) \<noteq> [] \<longrightarrow>
                       s' = e - overlap \<and> s' \<le> e))"
    unfolding follows_def nonblank_window_def overlap_def by fastforce
  with A show ?thesis unfolding eq by blast
qed

theorem chunk_boundaries_witness:
  "chunk_size < int (length gap_text) \<and>
   meta_int (create_text_chunks gap_text [] ! 0) ''chunk_index'' = Some 0 \<and>
   meta_int (create_text_chunks gap_text [] ! Suc 0) ''chunk_index'' = Some 1 \<and>
   meta_int (create_text_chunks gap_text [] ! 0) ''end_char'' = Some 999 \<and>
   meta_int (create_text_chunks gap_text [] ! Suc 0) ''start_char'' = Some 1598 \<and>
   999 - overlap \<le> (1598::int)"
proof -
  have h: "chunk_size < int (length gap_text)"
    by (simp add: length_gap_text chunk_size_def)
  have len: "length (create_text_chunks gap_text []) = 2"
    by (simp add: chunks_gap_text)
  from chunk_boundaries [OF h, of "[]"] len
  have "meta_int (create_text_chunks gap_text [] ! 0) ''chunk_index'' = Some (int 0)"
       "meta_int (create_text_chunks gap_text [] ! Suc 0) ''chunk_index'' = Some (int (Suc 0))"
       "\<exists>e s'. meta_int (create_text_chunks gap_text [] ! 0) ''end_char'' = Some e \<and>
               meta_int (create_text_chunks gap_text [] ! Suc 0) ''start_char'' = Some s' \<and>
               e - overlap \<le> s'"
    by auto
  then show ?thesis
    using h by (auto simp: chunks_gap_text meta_int_make_chunk)
qed

text \<open>
  The claim as stated, \<open>start_char[i+1] \<le> end_char[i]\<close> for every two consecutive chunks,
  fails on the text with the blank window: its two chunks are \<open>[0, 999)\<close> and
  \<open>[1598, 2598)\<close>.
\<close>

theorem chunk_gap_counterexample:
  "chunk_size < int (length gap_text) \<and>
   Suc 0 < length (create_text_chunks gap_text [(''document_type'', VStr ''text'')]) \<and>
   meta_int (create_text_chunks gap_text [(''document_type'', VStr ''text'')] ! 0) ''end_char''
     = Some 999 \<and>
   meta_int (create_text_chunks gap_text [(''document_type'', VStr ''text'')] ! Suc 0) ''start_char''
     = Some 1598 \<and>
   \<not> (1598 \<le> (999::int))"
  by (simp add: chunks_gap_text meta_int_make_chunk length_gap_text chunk_size_def)

subsection \<open>Trimmed chunk texts\<close>

lemma last_dropWhile: "dropWhile P xs \<noteq> [] \<Longrightarrow> last (dropWhile P xs) = last xs"
  by (induction xs) (auto split: if_splits)

lemma strip_trimmed:
  assumes "strip s \<noteq> []"
  shows "trimmed (strip s)"
proof -
  let ?t = "dropWhile is_space s"
  let ?u = "dropWhile is_space (rev ?t)"
  have s: "strip s = rev ?u" by (simp add: strip_def)
  with assms have u: "?u \<noteq> []" by simp
  have t: "?t \<noteq> []"
  proof
    assume "?t = []"
    then have "?u = dropWhile is_space (rev [])" by (simp only:)
    with u show False by simp
  qed
  have "\<not> is_space (hd ?u)" using u by (rule hd_dropWhile)
  then have l: "\<not> is_space (last (strip s))" using u by (simp add: s last_rev)
  have "last ?u = last (rev ?t)" using u by (rule last_dropWhile)
  also have "\<dots> = hd ?t" using t by (simp add: last_rev)
  finally have "hd (strip s) = hd ?t" using u by (simp add: s hd_rev)
  moreover have "\<not> is_space (hd ?t)" using t by (rule hd_dropWhile)
  ultimately show ?thesis using assms l by (simp add: trimmed_def)
qed

text \<open>Every chunk that the loop emits, for a long text, has a trimmed text.\<close>

lemma chunk_loop_texts_trimmed:
  "c \<in> set (chunk_loop t md start idx) \<Longrightarrow> trimmed (text c)"
proof (induction t md start idx rule: chunk_loop.induct)
  case (1 t md start idx)
  show ?case
  proof (cases "0 \<le> start \<and> start < int (length t)")
    case False
    with "1.prems" show ?thesis by (simp add: chunk_loop.simps)
  next
    case True
    show ?thesis
    proof (cases "strip (slice t start (window_end t start)) \<noteq> []")
      case nb: True
      with True "1.prems" consider
        "c = make_chunk (strip (slice t start (window_end t start))) md idx start (window_end t start)"
        | "c \<in> set (chunk_loop t md (next_start t start) (idx + 1))"
        by (subst (asm) chunk_loop.simps) (auto simp: Let_def)
      then show ?thesis
      proof cases
        case 1
        then show ?thesis using strip_trimmed [OF nb] by (simp add: make_chunk_def)
      next
        case 2
        from "1.IH"(1) [OF True refl refl nb 2] show ?thesis .
      qed
    next
      case b: False
      with True "1.prems" have "c \<in> set (chunk_loop t md (next_start t start) idx)"
        by (subst (asm) chunk_loop.simps) (auto simp: Let_def)
      from "1.IH"(2) [OF True refl refl b this] show ?thesis .
    qed
  qed
qed

text \<open>
  C8 does not hold for the short text. A PDF page of twelve characters that ends with a
  newline is not blank, so \<open>_process_pdf\<close> chunks it; it has at most 1000 characters, so
  the chunk text is the page text as it is, with the newline. The loop for long texts
  strips every window; the branch for short texts does not.
\<close>

theorem short_page_untrimmed:
  "strip short_page \<noteq> [] \<and>
   int (length short_page) \<le> chunk_size \<and>
   map text (process_pdf [short_page] ''http://host/a.pdf'') = [short_page] \<and>
   \<not> trimmed short_page \<and>
   strip short_page = ''Hello world''"
  by (simp add: short_page_def process_pdf_def create_text_chunks_def chunk_size_def
      strip_def is_space_def trimmed_def)


section \<open>Properties of the embedding service\<close>

subsection \<open>What the search loop returns\<close>

lemma collect_results_scores:
  "collect_results metadata th hits = Inr rs \<Longrightarrow>
   map similarity_score rs = map fst (filter (\<lambda>(score, idx). idx \<noteq> -1 \<and> th \<le> score) hits)"
proof (induction hits arbitrary: rs)
  case Nil
  then show ?case by simp
next
  case (Cons h hits)
  obtain score idx where h: "h = (score, idx)" by (cases h)
  show ?case
  proof (cases "idx \<noteq> -1 \<and> th \<le> score")
    case False
    with Cons h show ?thesis by auto
  next
    case True
    with Cons.prems h obtain cd rs' where
      "py_index metadata idx = Inr cd" "collect_results metadata th hits = Inr rs'"
      "rs = with_score cd score # rs'"
      by (auto split: sum.splits)
    with Cons.IH [of rs'] True h show ?thesis by (simp add: with_score_def)
  qed
qed

lemma collect_results_origin:
  "collect_results metadata th hits = Inr rs \<Longrightarrow> r \<in> set rs \<Longrightarrow>
   \<exists>cd \<in> set metadata. r = with_score cd (similarity_score r)"
proof (induction hits arbitrary: rs)
  case Nil
  then show ?case by simp
next
  case (Cons h hits)
  obtain score idx where h: "h = (score, idx)" by (cases h)
  show ?case
  proof (cases "idx \<noteq> -1 \<and> th \<le> score")
    case False
    with Cons h show ?thesis by auto
  next
    case True
    with Cons.prems(1) h obtain cd rs' where
      *: "py_index metadata idx = Inr cd" "collect_results metadata th hits = Inr rs'"
      "rs = with_score cd score # rs'"
      by (auto split: sum.splits)
    from *(1) have "cd \<in> set metadata"
      by (auto simp: py_index_def Let_def split: if_splits)
    with * Cons.IH [of rs'] Cons.prems(2) show ?thesis
      by (auto simp: with_score_def)
  qed
qed

lemma ranked_sorted: "sorted_wrt (\<ge>) (map fst (ranked stored q))"
proof -
  have "sorted (map (\<lambda>(score, idx). - score) (ranked stored q))"
    unfolding ranked_def by (rule sorted_sort_key)
  then have "sorted_wrt (\<lambda>x y. - fst x \<le> - fst y) (ranked stored q)"
    by (simp add: sorted_wrt_map case_prod_unfold)
  then show ?thesis by (simp add: sorted_wrt_map)
qed

lemma filter_row:
  "filter (live th) (take n (ranked stored q @ replicate n (faiss_pad_score, -1))) =
   filter (live th) (take n (ranked stored q))"
  by (simp add: live_def)

lemma row_scores:
  assumes "map similarity_score rs =
           map fst (filter (live th) (take n (ranked stored q @ replicate n (faiss_pad_score, -1))))"
  shows "length rs \<le> n" and "\<forall>r \<in> set rs. th \<le> similarity_score r"
    and "sorted_wrt (\<ge>) (map similarity_score rs)"
proof -
  let ?f = "filter (live th) (take n (ranked stored q))"
  from assms have eq: "map similarity_score rs = map fst ?f" by (simp only: filter_row)
  have "length rs = length (map similarity_score rs)" by simp
  also have "\<dots> = length ?f" by (simp add: eq)
  also have "\<dots> \<le> length (take n (ranked stored q))" by (rule length_filter_le)
  also have "\<dots> \<le> n" by simp
  finally show "length rs \<le> n" .
  have "\<forall>x \<in> set (map fst ?f). th \<le> x" by (auto simp: live_def)
  then have "\<forall>x \<in> set (map similarity_score rs). th \<le> x" by (simp only: eq)
  then show "\<forall>r \<in> set rs. th \<le> similarity_score r" by simp
  have "sorted_wrt (\<ge>) (map fst (take n (ranked stored q)))"
    using ranked_sorted [of stored q] by (simp add: take_map [symmetric] sorted_wrt_take)
  then have "sorted_wrt (\<lambda>x y. fst x \<ge> fst y) (take n (ranked stored q))"
    by (simp add: sorted_wrt_map)
  then have "sorted_wrt (\<lambda>x y. fst x \<ge> fst y) ?f" by (rule sorted_wrt_filter)
  then show "sorted_wrt (\<ge>) (map similarity_score rs)" by (simp add: eq sorted_wrt_map)
qed

lemma search_similar_row:
  assumes "is_indexed svc" and "search_similar encode svc query top_k th = Inr rs"
  shows "\<exists>q. 0 < top_k \<and>
           collect_results (chunks_metadata svc) th
             (take (nat top_k) (ranked (index svc) q @ replicate (nat top_k) (faiss_pad_score, -1)))
           = Inr rs"
  using assms
  by (auto simp: search_similar_def faiss_search_def split: sum.splits if_splits list.splits)

lemma index_chunks_state:
  "chunks_metadata (snd (index_chunks encode svc chunks)) =
     (if fst (index_chunks encode svc chunks) = Inr () then map to_dict chunks else [])"
  by (simp add: index_chunks_def Let_def split: sum.splits)

lemma str_nat_digit: "n < 10 \<Longrightarrow> str_nat n = [digit_char n]"
  by (subst str_nat.simps) simp

lemma str_int_nat: "str_int (int n) = str_nat n"
  by (simp add: str_int_def)

lemma context_parts_enumerate:
  "context_parts (int n) rs = map (\<lambda>(rank, r). context_block rank r) (enumerate n rs)"
proof (induction rs arbitrary: n)
  case Nil
  then show ?case by simp
next
  case (Cons r rs)
  have "context_parts (int n + 1) rs = context_parts (int (Suc n)) rs" by (simp add: add.commute)
  with Cons [of "Suc n"] show ?case by (simp add: context_block_def str_int_nat)
qed

lemma ranked_member:
  "(s, i) \<in> set (ranked stored q) \<Longrightarrow>
   \<exists>j < length stored. i = int j \<and> s = inner_product q (stored ! j)"
  by (auto simp: ranked_def in_set_enumerate_eq)

lemma collect_results_hits:
  "collect_results metadata th hits = Inr rs \<Longrightarrow> r \<in> set rs \<Longrightarrow>
   \<exists>s idx cd. (s, idx) \<in> set hits \<and> idx \<noteq> -1 \<and> th \<le> s \<and>
               py_index metadata idx = Inr cd \<and> r = with_score cd s"
proof (induction hits arbitrary: rs)
  case Nil
  then show ?case by simp
next
  case (Cons h hits)
  obtain score idx where h: "h = (score, idx)" by (cases h)
  show ?case
  proof (cases "idx \<noteq> -1 \<and> th \<le> score")
    case False
    with Cons.prems h have "collect_results metadata th hits = Inr rs" by auto
    from Cons.IH [OF this Cons.prems(2)] show ?thesis by auto
  next
    case True
    with Cons.prems(1) h obtain cd rs' where
      *: "py_index metadata idx = Inr cd" "collect_results metadata th hits = Inr rs'"
      "rs = with_score cd score # rs'"
      by (auto split: sum.splits)
    show ?thesis
    proof (cases "r = with_score cd score")
      case r: True
      with True * h show ?thesis by auto
    next
      case False
      with * Cons.prems(2) have "r \<in> set rs'" by simp
      from Cons.IH [OF *(2) this] show ?thesis by auto
    qed
  qed
qed

lemma search_similar_query:
  assumes "is_indexed svc" and "search_similar encode svc query top_k th = Inr rs"
  shows "\<exists>q qs. encode [query] = Inr (q # qs) \<and>
           collect_results (chunks_metadata svc) th
             (take (nat top_k) (ranked (index svc) q @ replicate (nat top_k) (faiss_pad_score, -1)))
           = Inr rs"
  using assms
  by (auto simp: search_similar_def faiss_search_def embed_texts_def
      split: sum.splits if_splits list.splits)

lemma index_chunks_outcome:
  "(fst (index_chunks encode svc chunks) = Inr () \<longrightarrow>
      encode (map text chunks) = Inr (index (snd (index_chunks encode svc chunks))) \<and>
      chunks_metadata (snd (index_chunks encode svc chunks)) = map to_dict chunks) \<and>
   (fst (index_chunks encode svc chunks) \<noteq> Inr () \<longrightarrow>
      index (snd (index_chunks encode svc chunks)) = [] \<and>
      chunks_metadata (snd (index_chunks encode svc chunks)) = [])"
  by (auto simp: index_chunks_def Let_def embed_texts_def faiss_add_def split: sum.splits if_splits)

lemma py_index_Inr: "py_index xs (int j) = Inr x \<Longrightarrow> j < length xs \<and> x = xs ! j"
  by (auto simp: py_index_def Let_def split: if_splits)

subsection \<open>The example service\<close>

lemma example_service_eq:
  "example_service =
     \<lparr>embedding_dim = 2, index = [[1, 0], [0, 1], [3 / 5, 4 / 5]],
      chunks_metadata = [to_dict (example_chunk ''alpha''), to_dict (example_chunk ''beta''),
                         to_dict (example_chunk ''gamma'')],
      is_indexed = True\<rparr>"
  by (simp add: example_service_def index_chunks_def Let_def embed_texts_def example_encode_def
      example_vector_def example_chunk_def faiss_add_def new_embedding_service_def)

lemma example_search:
  "search_similar example_encode example_service ''find'' 2 (1 / 2) =
     Inr [with_score (to_dict (example_chunk ''gamma'')) (24 / 25),
          with_score (to_dict (example_chunk ''alpha'')) (4 / 5)]"
  by (simp add: example_service_eq search_similar_def embed_texts_def example_encode_def
      example_vector_def faiss_search_def ranked_def inner_product_def enumerate_eq_zip
      py_index_def Let_def upt_rec take_Cons')

lemma example_search_3:
  "search_similar example_encode example_service ''find'' 3 (1 / 2) =
     Inr [with_score (to_dict (example_chunk ''gamma'')) (24 / 25),
          with_score (to_dict (example_chunk ''alpha'')) (4 / 5),
          with_score (to_dict (example_chunk ''beta'')) (3 / 5)]"
  by (simp add: example_service_eq search_similar_def embed_texts_def example_encode_def
      example_vector_def faiss_search_def ranked_def inner_product_def enumerate_eq_zip
      py_index_def Let_def upt_rec take_Cons')

lemma example_first_index:
  "snd (index_chunks example_encode (new_embedding_service 2) [example_chunk ''gamma'']) =
     \<lparr>embedding_dim = 2, index = [[3 / 5, 4 / 5]],
      chunks_metadata = [to_dict (example_chunk ''gamma'')], is_indexed = True\<rparr>"
  by (simp add: index_chunks_def Let_def embed_texts_def example_encode_def
      example_vector_def example_chunk_def faiss_add_def new_embedding_service_def)

lemma example_second_index:
  "index_chunks example_encode
     \<lparr>embedding_dim = 2, index = [[3 / 5, 4 / 5]],
      chunks_metadata = [to_dict (example_chunk ''gamma'')], is_indexed = True\<rparr>
     [example_chunk ''alpha'', example_chunk ''beta''] =
   (Inr (),
    \<lparr>embedding_dim = 2, index = [[1, 0], [0, 1]],
     chunks_metadata = [to_dict (example_chunk ''alpha''), to_dict (example_chunk ''beta'')],
     is_indexed = True\<rparr>)"
  by (simp add: index_chunks_def Let_def embed_texts_def example_encode_def
      example_vector_def example_chunk_def faiss_add_def)

lemma example_failed_index:
  "index_chunks example_encode
     \<lparr>embedding_dim = 2, index = [[3 / 5, 4 / 5]],
      chunks_metadata = [to_dict (example_chunk ''gamma'')], is_indexed = True\<rparr>
     [example_chunk ''boom''] =
   (Inl (Exception ''model failure''),
    \<lparr>embedding_dim = 2, index = [], chunks_metadata = [], is_indexed = True\<rparr>)"
  by (simp add: index_chunks_def Let_def embed_texts_def example_encode_def example_chunk_def)

lemma example_second_search:
  "search_similar example_encode
     \<lparr>embedding_dim = 2, index = [[1, 0], [0, 1]],
      chunks_metadata = [to_dict (example_chunk ''alpha''), to_dict (example_chunk ''beta'')],
      is_indexed = True\<rparr> ''find'' 2 (1 / 2) =
     Inr [with_score (to_dict (example_chunk ''alpha'')) (4 / 5),
          with_score (to_dict (example_chunk ''beta'')) (3 / 5)]"
  by (simp add: search_similar_def embed_texts_def example_encode_def
      example_vector_def faiss_search_def ranked_def inner_product_def enumerate_eq_zip
      py_index_def Let_def upt_rec take_Cons')

lemma example_failed_search:
  "search_similar example_encode
     \<lparr>embedding_dim = 2, index = [], chunks_metadata = [], is_indexed = True\<rparr>
     ''find'' 2 (1 / 2) = Inr []"
  by (simp add: search_similar_def embed_texts_def example_encode_def
      example_vector_def faiss_search_def ranked_def take_Cons' numeral_2_eq_2)

lemma format_2f_examples:
  "format_2f (24 / 25) = ''0.96''" "format_2f (4 / 5) = ''0.80''" "format_2f (3 / 5) = ''0.60''"
  by (simp_all add: format_2f_def round_half_even_def Let_def str_nat_digit digit_char_def)

subsection \<open>Search results\<close>

text \<open>
  C5. On a service that has indexed a corpus, a search that returns gives at most \<open>top_k\<close>
  results, each with a score of at least the threshold, by descending score. On a service
  that has not indexed anything, and so on a new one, the search returns the empty list.
\<close>

theorem search_results_bounded:
  "(is_indexed svc \<and> search_similar encode svc query top_k th = Inr rs \<longrightarrow>
      int (length rs) \<le> top_k \<and>
      (\<forall>r \<in> set rs. th \<le> similarity_score r) \<and>
      sorted_wrt (\<ge>) (map similarity_score rs)) \<and>
   (\<not> is_indexed svc \<longrightarrow> search_similar encode svc query top_k th = Inr []) \<and>
   search_similar encode (new_embedding_service d) query top_k th = Inr []"
proof -
  have "int (length rs) \<le> top_k \<and>
      (\<forall>r \<in> set rs. th \<le> similarity_score r) \<and>
      sorted_wrt (\<ge>) (map similarity_score rs)"
    if a: "is_indexed svc" "search_similar encode svc query top_k th = Inr rs"
  proof -
    from search_similar_row [OF a] obtain q where k: "0 < top_k" and
      c: "collect_results (chunks_metadata svc) th
             (take (nat top_k) (ranked (index svc) q @ replicate (nat top_k) (faiss_pad_score, -1)))
           = Inr rs" by blast
    from collect_results_scores [OF c]
    have "map similarity_score rs =
           map fst (filter (live th)
             (take (nat top_k) (ranked (index svc) q @ replicate (nat top_k) (faiss_pad_score, -1))))"
      by (simp add: live_def)
    from row_scores [OF this] k show ?thesis by simp
  qed
  then show ?thesis
    by (simp add: search_similar_def new_embedding_service_def)
qed

theorem search_results_bounded_witness:
  "is_indexed example_service \<and>
   search_similar example_encode example_service ''find'' 2 (1 / 2) =
     Inr [with_score (to_dict (example_chunk ''gamma'')) (24 / 25),
          with_score (to_dict (example_chunk ''alpha'')) (4 / 5)] \<and>
   int (length [with_score (to_dict (example_chunk ''gamma'')) (24 / 25),
                with_score (to_dict (example_chunk ''alpha'')) (4 / 5)]) \<le> 2 \<and>
   sorted_wrt (\<ge>) (map similarity_score
     [with_score (to_dict (example_chunk ''gamma'')) (24 / 25),
      with_score (to_dict (example_chunk ''alpha'')) (4 / 5)]) \<and>
   \<not> is_indexed (new_embedding_service 2) \<and>
   search_similar example_encode (new_embedding_service 2) ''find'' 2 (1 / 2) = Inr []"
proof -
  let ?rs = "[with_score (to_dict (example_chunk ''gamma'')) (24 / 25),
              with_score (to_dict (example_chunk ''alpha'')) (4 / 5)]"
  have i: "is_indexed example_service" by (simp add: example_service_eq)
  have n: "\<not> is_indexed (new_embedding_service 2)" by (simp add: new_embedding_service_def)
  note s = example_search
  from search_results_bounded [of example_service example_encode "''find''" 2 "1 / 2" ?rs 2] i s
  have "int (length ?rs) \<le> 2 \<and> sorted_wrt (\<ge>) (map similarity_score ?rs) \<and>
        search_similar example_encode (new_embedding_service 2) ''find'' 2 (1 / 2) = Inr []"
    by blast
  with i n s show ?thesis by blast
qed

text \<open>
  C4. \<open>index_chunks\<close> on \<open>A\<close> and then on \<open>B\<close>, whatever the first call returned. When the
  second call returns, the index holds exactly the vectors that the model gave for the texts
  of \<open>B\<close> and the metadata are those of \<open>B\<close>; when it raises, both are empty. So every
  result of a search is the chunk of \<open>B\<close> at some position with the inner product of the
  query vector and the vector of \<open>B\<close> at the same position, and a search after a failed
  call has no result. The search does not change the state, so this holds for every later
  search.
\<close>

theorem reindex_discards_previous:
  assumes "search_similar encQ (snd (index_chunks encB (snd (index_chunks encA svc A)) B))
             query top_k th = Inr rs"
  shows "(\<forall>r \<in> set rs. \<exists>b \<in> set B. r = with_score (to_dict b) (similarity_score r)) \<and>
         (fst (index_chunks encB (snd (index_chunks encA svc A)) B) \<noteq> Inr () \<longrightarrow> rs = []) \<and>
         (fst (index_chunks encB (snd (index_chunks encA svc A)) B) = Inr () \<longrightarrow>
            encB (map text B) =
              Inr (index (snd (index_chunks encB (snd (index_chunks encA svc A)) B))) \<and>
            chunks_metadata (snd (index_chunks encB (snd (index_chunks encA svc A)) B)) =
              map to_dict B) \<and>
         (fst (index_chunks encB (snd (index_chunks encA svc A)) B) \<noteq> Inr () \<longrightarrow>
            index (snd (index_chunks encB (snd (index_chunks encA svc A)) B)) = [] \<and>
            chunks_metadata (snd (index_chunks encB (snd (index_chunks encA svc A)) B)) = []) \<and>
         (\<forall>r \<in> set rs. \<exists>vs q qs i.
            encB (map text B) = Inr vs \<and> encQ [query] = Inr (q # qs) \<and>
            i < length B \<and> i < length vs \<and>
            r = with_score (to_dict (B ! i)) (inner_product q (vs ! i)))"
proof -
  let ?svc1 = "snd (index_chunks encA svc A)"
  let ?svc2 = "snd (index_chunks encB ?svc1 B)"
  note st = index_chunks_outcome [of encB ?svc1 B]
  have st_ok: "encB (map text B) = Inr (index ?svc2)" "chunks_metadata ?svc2 = map to_dict B"
    if "fst (index_chunks encB ?svc1 B) = Inr ()"
    using st that by (simp_all only: simp_thms)
  have st_fail: "index ?svc2 = []" "chunks_metadata ?svc2 = []"
    if "fst (index_chunks encB ?svc1 B) \<noteq> Inr ()"
    using st that by (simp_all only: simp_thms not_False_eq_True)
  have pos: "\<exists>vs q qs i.
            encB (map text B) = Inr vs \<and> encQ [query] = Inr (q # qs) \<and>
            i < length B \<and> i < length vs \<and>
            r = with_score (to_dict (B ! i)) (inner_product q (vs ! i))"
    if r: "r \<in> set rs" for r
  proof (cases "is_indexed ?svc2")
    case False
    with assms r show ?thesis by (simp add: search_similar_def)
  next
    case True
    from search_similar_query [OF True assms] obtain q qs where
      q: "encQ [query] = Inr (q # qs)" and
      c: "collect_results (chunks_metadata ?svc2) th
         (take (nat top_k) (ranked (index ?svc2) q @ replicate (nat top_k) (faiss_pad_score, -1)))
       = Inr rs" by blast
    from collect_results_hits [OF c r] obtain s idx cd where
      h: "(s, idx) \<in> set (take (nat top_k)
            (ranked (index ?svc2) q @ replicate (nat top_k) (faiss_pad_score, -1)))"
      and ne: "idx \<noteq> -1" and p: "py_index (chunks_metadata ?svc2) idx = Inr cd"
      and rw: "r = with_score cd s" by blast
    from h have "(s, idx) \<in> set (ranked (index ?svc2) q @ replicate (nat top_k) (faiss_pad_score, -1))"
      by (rule in_set_takeD)
    with ne have "(s, idx) \<in> set (ranked (index ?svc2) q)" by auto
    from ranked_member [OF this] obtain j where
      j: "j < length (index ?svc2)" "idx = int j" "s = inner_product q (index ?svc2 ! j)" by blast
    from p j(2) have "py_index (chunks_metadata ?svc2) (int j) = Inr cd" by simp
    from py_index_Inr [OF this]
    have pj: "j < length (chunks_metadata ?svc2)" "cd = chunks_metadata ?svc2 ! j" by simp_all
    have ok: "fst (index_chunks encB ?svc1 B) = Inr ()"
    proof (rule ccontr)
      assume "fst (index_chunks encB ?svc1 B) \<noteq> Inr ()"
      from st_fail(2) [OF this] pj(1) show False by simp
    qed
    note e = st_ok(1) [OF ok] and m = st_ok(2) [OF ok]
    from pj(1) have jB: "j < length B" by (simp only: m length_map)
    from pj(2) jB have cd: "cd = to_dict (B ! j)" by (simp only: m nth_map)
    show ?thesis
      by (intro exI [of _ "index ?svc2"] exI [of _ q] exI [of _ qs] exI [of _ j])
         (simp only: e q jB j(1) rw cd j(3) simp_thms)
  qed
  have origin: "\<exists>b \<in> set B. r = with_score (to_dict b) (similarity_score r)"
    if r: "r \<in> set rs" for r
  proof -
    from pos [OF r] obtain vs q qs i where
      "i < length B" "r = with_score (to_dict (B ! i)) (inner_product q (vs ! i))" by blast
    then show ?thesis by (auto simp: with_score_def intro!: bexI [of _ "B ! i"])
  qed
  have empty: "rs = []" if f: "fst (index_chunks encB ?svc1 B) \<noteq> Inr ()"
  proof (cases rs)
    case Nil
    then show ?thesis .
  next
    case (Cons r rs')
    then have "r \<in> set rs" by simp
    have "is_indexed ?svc2"
      using assms Cons by (cases "is_indexed ?svc2") (simp_all add: search_similar_def)
    from search_similar_query [OF this assms] obtain q qs where
      c: "collect_results (chunks_metadata ?svc2) th
       (take (nat top_k) (ranked (index ?svc2) q @ replicate (nat top_k) (faiss_pad_score, -1)))
       = Inr rs" by blast
    from collect_results_origin [OF c \<open>r \<in> set rs\<close>]
    have "chunks_metadata ?svc2 \<noteq> []" by auto
    with st_fail(2) [OF f] show ?thesis by simp
  qed
  have P1: "\<forall>r \<in> set rs. \<exists>b \<in> set B. r = with_score (to_dict b) (similarity_score r)"
    using origin by blast
  have P2: "fst (index_chunks encB ?svc1 B) \<noteq> Inr () \<longrightarrow> rs = []"
    using empty by blast
  have P5: "\<forall>r \<in> set rs. \<exists>vs q qs i.
            encB (map text B) = Inr vs \<and> encQ [query] = Inr (q # qs) \<and>
            i < length B \<and> i < length vs \<and>
            r = with_score (to_dict (B ! i)) (inner_product q (vs ! i))"
    using pos by blast
  note P3 = st [THEN conjunct1] and P4 = st [THEN conjunct2]
  show ?thesis using P1 P2 P3 P4 P5 by (intro conjI) assumption+
qed

theorem reindex_discards_previous_witness:
  "search_similar example_encode
     (snd (index_chunks example_encode
        (snd (index_chunks example_encode (new_embedding_service 2) [example_chunk ''gamma'']))
        [example_chunk ''alpha'', example_chunk ''beta'']))
     ''find'' 2 (1 / 2) =
     Inr [with_score (to_dict (example_chunk ''alpha'')) (4 / 5),
          with_score (to_dict (example_chunk ''beta'')) (3 / 5)] \<and>
   index (snd (index_chunks example_encode
        (snd (index_chunks example_encode (new_embedding_service 2) [example_chunk ''gamma'']))
        [example_chunk ''alpha'', example_chunk ''beta''])) = [[1, 0], [0, 1]] \<and>
   inner_product [4 / 5, 3 / 5] [1, 0] = 4 / 5 \<and>
   inner_product [4 / 5, 3 / 5] [3 / 5, 4 / 5] = 24 / 25 \<and>
   fst (index_chunks example_encode
        (snd (index_chunks example_encode (new_embedding_service 2) [example_chunk ''gamma'']))
        [example_chunk ''boom'']) = Inl (Exception ''model failure'') \<and>
   index (snd (index_chunks example_encode
        (snd (index_chunks example_encode (new_embedding_service 2) [example_chunk ''gamma'']))
        [example_chunk ''boom''])) = [] \<and>
   search_similar example_encode
     (snd (index_chunks example_encode
        (snd (index_chunks example_encode (new_embedding_service 2) [example_chunk ''gamma'']))
        [example_chunk ''boom'']))
     ''find'' 2 (1 / 2) = Inr []"
proof -
  let ?A = "[example_chunk ''gamma'']"
  let ?B = "[example_chunk ''alpha'', example_chunk ''beta'']"
  let ?F = "[example_chunk ''boom'']"
  let ?svc = "new_embedding_service 2"
  let ?svc1 = "snd (index_chunks example_encode ?svc ?A)"
  have ok: "search_similar example_encode (snd (index_chunks example_encode ?svc1 ?B))
     ''find'' 2 (1 / 2) =
     Inr [with_score (to_dict (example_chunk ''alpha'')) (4 / 5),
          with_score (to_dict (example_chunk ''beta'')) (3 / 5)]"
    by (simp only: example_first_index example_second_index snd_conv example_second_search)
  have good: "fst (index_chunks example_encode ?svc1 ?B) = Inr ()"
    by (simp only: example_first_index example_second_index fst_conv)
  have failed: "fst (index_chunks example_encode ?svc1 ?F) = Inl (Exception ''model failure'')"
    by (simp only: example_first_index example_failed_index fst_conv)
  have empty: "search_similar example_encode (snd (index_chunks example_encode ?svc1 ?F))
     ''find'' 2 (1 / 2) = Inr []"
    by (simp only: example_first_index example_failed_index snd_conv example_failed_search)
  note t = reindex_discards_previous [OF ok]
  from t good have "example_encode (map text ?B) =
      Inr (index (snd (index_chunks example_encode ?svc1 ?B)))" by blast
  then have i: "index (snd (index_chunks example_encode ?svc1 ?B)) = [[1, 0], [0, 1]]"
    by (simp add: example_encode_def example_vector_def example_chunk_def)
  note f = reindex_discards_previous [OF empty]
  from f failed have j: "index (snd (index_chunks example_encode ?svc1 ?F)) = []" by simp
  have ip: "inner_product [4 / 5, 3 / 5] [1, 0] = 4 / 5"
    "inner_product [4 / 5, 3 / 5] [3 / 5, 4 / 5] = 24 / 25"
    by (simp_all add: inner_product_def)
  show ?thesis using ok i ip failed j empty by (intro conjI) assumption+
qed

text \<open>
  C9. When the search returns, the context is the rendering that the specification words:
  the blocks of the results in order, ranks from 1, joined by a blank line; it is the empty
  string when the search has no result. An exception of the search is raised again.
\<close>

theorem context_rendering:
  "(search_similar encode svc query max_chunks (1 / 2) = Inr rs \<longrightarrow>
      get_context_for_query encode svc query max_chunks = Inr (render_context rs)) \<and>
   (search_similar encode svc query max_chunks (1 / 2) = Inr [] \<longrightarrow>
      get_context_for_query encode svc query max_chunks = Inr []) \<and>
   (search_similar encode svc query max_chunks (1 / 2) = Inl e \<longrightarrow>
      get_context_for_query encode svc query max_chunks = Inl e)"
  using context_parts_enumerate [of 1]
  by (simp add: get_context_for_query_def render_context_def)

theorem context_rendering_witness:
  "search_similar example_encode example_service ''find'' 3 (1 / 2) =
     Inr [with_score (to_dict (example_chunk ''gamma'')) (24 / 25),
          with_score (to_dict (example_chunk ''alpha'')) (4 / 5),
          with_score (to_dict (example_chunk ''beta'')) (3 / 5)] \<and>
   get_context_for_query example_encode example_service ''find'' 3 =
     Inr (''[Context 1] (Score: 0.96)'' @ [CHR 0x0A] @ ''gamma'' @ [CHR 0x0A, CHR 0x0A] @
          ''[Context 2] (Score: 0.80)'' @ [CHR 0x0A] @ ''alpha'' @ [CHR 0x0A, CHR 0x0A] @
          ''[Context 3] (Score: 0.60)'' @ [CHR 0x0A] @ ''beta'')"
proof -
  let ?rs = "[with_score (to_dict (example_chunk ''gamma'')) (24 / 25),
              with_score (to_dict (example_chunk ''alpha'')) (4 / 5),
              with_score (to_dict (example_chunk ''beta'')) (3 / 5)]"
  note s = example_search_3
  from context_rendering [of example_encode example_service "''find''" 3 ?rs] s
  have "get_context_for_query example_encode example_service ''find'' 3 = Inr (render_context ?rs)"
    by blast
  moreover have "render_context ?rs =
          ''[Context 1] (Score: 0.96)'' @ [CHR 0x0A] @ ''gamma'' @ [CHR 0x0A, CHR 0x0A] @
          ''[Context 2] (Score: 0.80)'' @ [CHR 0x0A] @ ''alpha'' @ [CHR 0x0A, CHR 0x0A] @
          ''[Context 3] (Score: 0.60)'' @ [CHR 0x0A] @ ''beta''"
    by (simp add: render_context_def context_block_def enumerate_eq_zip upt_rec with_score_def
        to_dict_def example_chunk_def format_2f_examples str_nat_digit digit_char_def)
  ultimately show ?thesis using s by simp
qed


section \<open>Properties of the answer generator\<close>

lemma generate_batch_answers_map:
  "generate_batch_answers generate_content queries contexts =
     map (\<lambda>(query, context). generate_answer generate_content query context)
       (zip queries contexts)"
  by (simp add: generate_batch_answers_def gather_def Let_def case_prod_unfold)

lemma generate_batch_answers_nth:
  assumes "length queries = length contexts" and "i < length queries"
  shows "generate_batch_answers generate_content queries contexts ! i =
           generate_answer generate_content (queries ! i) (contexts ! i)"
  using assms by (simp add: generate_batch_answers_map)

lemma length_generate_batch_answers:
  "length queries = length contexts \<Longrightarrow>
   length (generate_batch_answers generate_content queries contexts) = length queries"
  by (simp add: generate_batch_answers_map)

lemma fold_slots:
  "length init = length xs \<Longrightarrow>
   length (fold (\<lambda>i slots. if i < length slots then slots[i := Some (xs ! i)] else slots)
             order init) = length xs \<and>
   (\<forall>j < length xs.
      fold (\<lambda>i slots. if i < length slots then slots[i := Some (xs ! i)] else slots)
        order init ! j =
      (if j \<in> set order then Some (xs ! j) else init ! j))"
proof (induction order arbitrary: init)
  case Nil
  then show ?case by simp
next
  case (Cons i order)
  let ?f = "\<lambda>i slots. if i < length slots then slots[i := Some (xs ! i)] else slots"
  have l: "length (?f i init) = length xs" using Cons.prems by simp
  from Cons.IH [OF l] have
    IH1: "length (fold ?f order (?f i init)) = length xs" and
    IH2: "\<forall>j < length xs. fold ?f order (?f i init) ! j =
            (if j \<in> set order then Some (xs ! j) else ?f i init ! j)"
    by blast+
  have "\<forall>j < length xs. fold ?f (i # order) init ! j =
      (if j \<in> set (i # order) then Some (xs ! j) else init ! j)"
  proof (intro allI impI)
    fix j assume j: "j < length xs"
    with IH2 have "fold ?f order (?f i init) ! j =
            (if j \<in> set order then Some (xs ! j) else ?f i init ! j)" by blast
    moreover have "?f i init ! j = (if j = i then Some (xs ! j) else init ! j)"
      using j Cons.prems by (auto simp: nth_list_update)
    ultimately show "fold ?f (i # order) init ! j =
      (if j \<in> set (i # order) then Some (xs ! j) else init ! j)" by auto
  qed
  with IH1 show ?case by simp
qed

lemma completed_slots_gather:
  assumes "set completion_order = {0..<length outcomes}"
  shows "completed_slots outcomes completion_order = map Some (gather outcomes)"
proof (rule nth_equalityI)
  note f = fold_slots [of "replicate (length outcomes) None" outcomes completion_order]
  show "length (completed_slots outcomes completion_order) = length (map Some (gather outcomes))"
    using f by (simp add: completed_slots_def gather_def)
  fix j assume "j < length (completed_slots outcomes completion_order)"
  then have j: "j < length outcomes" using f by (simp add: completed_slots_def)
  with assms have "j \<in> set completion_order" by simp
  with f j show "completed_slots outcomes completion_order ! j = map Some (gather outcomes) ! j"
    by (simp add: completed_slots_def gather_def)
qed

lemma completed_generation_tasks:
  assumes "set completion_order = {0..<length queries}" and "length queries = length contexts"
  shows "completed_slots (generation_tasks generate_content queries contexts) completion_order =
           map (\<lambda>answer. Some (Inr answer))
             (generate_batch_answers generate_content queries contexts)"
proof -
  have "length (generation_tasks generate_content queries contexts) = length queries"
    using assms(2) by (simp add: generation_tasks_def)
  with assms(1) have "completed_slots (generation_tasks generate_content queries contexts)
      completion_order = map Some (gather (generation_tasks generate_content queries contexts))"
    by (intro completed_slots_gather) simp
  then show ?thesis
    by (simp add: gather_def generation_tasks_def generate_batch_answers_map case_prod_unfold)
qed

lemma full_prompt_inject:
  "full_prompt q c = full_prompt q' c' \<longleftrightarrow> user_prompt q c = user_prompt q' c'"
  by (simp add: full_prompt_def)

lemma example_prompts:
  "full_prompt ''q1'' ''c1'' \<noteq> full_prompt ''q2'' ''c2''"
  "full_prompt ''q3'' ''c3'' \<noteq> full_prompt ''q2'' ''c2''"
  by (simp_all add: full_prompt_inject user_prompt_def)

lemma strip_example: "strip '' an answer '' = ''an answer''"
  by (simp add: strip_def is_space_def)

text \<open>
  C7. \<open>generate_answer\<close> returns a string whatever the completion does: the apology with
  the message of the exception when it fails, the stripped response otherwise. For
  lists of equal length the batch has the length of the lists, and its answer at each
  position is the single answer for the query and the context at that position; so a
  failing query has its apology there and the other positions have their answers.
\<close>

theorem answer_failures_isolated:
  "(generate_content (full_prompt query context) = Inl e \<longrightarrow>
      generate_answer generate_content query context =
        ''I apologize, but I encountered an error while processing your query: '' @ str_error e) \<and>
   (generate_content (full_prompt query context) = Inr t \<longrightarrow>
      generate_answer generate_content query context = strip t) \<and>
   (length queries = length contexts \<longrightarrow>
      length (generate_batch_answers generate_content queries contexts) = length queries \<and>
      (\<forall>i < length queries.
         generate_batch_answers generate_content queries contexts ! i =
           generate_answer generate_content (queries ! i) (contexts ! i)))"
  by (simp add: generate_answer_def generate_batch_answers_nth length_generate_batch_answers)

theorem answer_failures_isolated_witness:
  "example_completion (full_prompt ''q2'' ''c2'') = Inl (Exception ''quota exceeded'') \<and>
   example_completion (full_prompt ''q1'' ''c1'') = Inr '' an answer '' \<and>
   length [''q1'', ''q2'', ''q3''] = length [''c1'', ''c2'', ''c3''] \<and>
   generate_batch_answers example_completion [''q1'', ''q2'', ''q3''] [''c1'', ''c2'', ''c3''] =
     [''an answer'',
      ''I apologize, but I encountered an error while processing your query: quota exceeded'',
      ''an answer'']"
proof -
  let ?qs = "[''q1'', ''q2'', ''q3'']" and ?cs = "[''c1'', ''c2'', ''c3'']"
  have f: "example_completion (full_prompt ''q2'' ''c2'') = Inl (Exception ''quota exceeded'')"
    by (simp add: example_completion_def)
  have g1: "example_completion (full_prompt ''q1'' ''c1'') = Inr '' an answer ''"
    by (simp add: example_completion_def example_prompts)
  have g3: "example_completion (full_prompt ''q3'' ''c3'') = Inr '' an answer ''"
    by (simp add: example_completion_def example_prompts)
  have l: "length ?qs = length ?cs" by simp
  have a1: "generate_answer example_completion ''q1'' ''c1'' = ''an answer''"
    using answer_failures_isolated [of example_completion "''q1''" "''c1''" _ "'' an answer ''"] g1
    by (simp add: strip_example)
  have a2: "generate_answer example_completion ''q2'' ''c2'' =
      ''I apologize, but I encountered an error while processing your query: quota exceeded''"
    using answer_failures_isolated [of example_completion "''q2''" "''c2''" "Exception ''quota exceeded''"] f
    by simp
  have a3: "generate_answer example_completion ''q3'' ''c3'' = ''an answer''"
    using answer_failures_isolated [of example_completion "''q3''" "''c3''" _ "'' an answer ''"] g3
    by (simp add: strip_example)
  from answer_failures_isolated [of example_completion _ _ _ _ ?qs ?cs] l
  have len: "length (generate_batch_answers example_completion ?qs ?cs) = 3"
    and nth: "\<forall>i < 3. generate_batch_answers example_completion ?qs ?cs ! i =
                generate_answer example_completion (?qs ! i) (?cs ! i)"
    by simp_all
  have "generate_batch_answers example_completion ?qs ?cs =
     [generate_answer example_completion ''q1'' ''c1'',
      generate_answer example_completion ''q2'' ''c2'',
      generate_answer example_completion ''q3'' ''c3'']"
  proof (rule nth_equalityI)
    show "length (generate_batch_answers example_completion ?qs ?cs) =
      length [generate_answer example_completion ''q1'' ''c1'',
      generate_answer example_completion ''q2'' ''c2'',
      generate_answer example_completion ''q3'' ''c3'']" using len by simp
  next
    fix i assume "i < length (generate_batch_answers example_completion ?qs ?cs)"
    then have "i < 3" using len by simp
    then consider "i = 0" | "i = 1" | "i = 2" by linarith
    then show "generate_batch_answers example_completion ?qs ?cs ! i =
      [generate_answer example_completion ''q1'' ''c1'',
      generate_answer example_completion ''q2'' ''c2'',
      generate_answer example_completion ''q3'' ''c3''] ! i"
      using nth by cases simp_all
  qed
  with a1 a2 a3 f g1 l show ?thesis by simp
qed


section \<open>Properties of the query processor\<close>

lemma retrieve_contexts_Inr:
  "retrieve_contexts encode svc questions = Inr contexts \<longleftrightarrow>
   list_all2 (\<lambda>q c. get_context_for_query encode svc q max_context_chunks = Inr c)
     questions contexts"
proof (induction questions arbitrary: contexts)
  case Nil
  then show ?case by auto
next
  case (Cons q qs)
  show ?case
  proof (cases "get_context_for_query encode svc q max_context_chunks")
    case (Inl e)
    then show ?thesis by (auto simp: list_all2_Cons1)
  next
    case (Inr c)
    then show ?thesis
      using Cons.IH by (cases "retrieve_contexts encode svc qs") (auto simp: list_all2_Cons1)
  qed
qed

lemma retrieve_contexts_succeeds:
  "\<forall>q \<in> set questions. \<exists>c. get_context_for_query encode svc q max_context_chunks = Inr c \<Longrightarrow>
   \<exists>contexts. retrieve_contexts encode svc questions = Inr contexts"
  by (induction questions) auto

lemma retrieve_contexts_fails:
  "\<exists>q \<in> set questions. \<exists>e. get_context_for_query encode svc q max_context_chunks = Inl e \<Longrightarrow>
   \<exists>e. retrieve_contexts encode svc questions = Inl e"
proof (induction questions)
  case Nil
  then show ?case by simp
next
  case (Cons q qs)
  show ?case
  proof (cases "get_context_for_query encode svc q max_context_chunks")
    case (Inl e)
    then show ?thesis by simp
  next
    case (Inr c)
    with Cons.prems have "\<exists>q \<in> set qs. \<exists>e. get_context_for_query encode svc q max_context_chunks = Inl e"
      by auto
    from Cons.IH [OF this] Inr show ?thesis by auto
  qed
qed

lemma collect_results_pads: "collect_results metadata th (replicate n (score, -1)) = Inr []"
  by (induction n) simp_all

lemma example_stage_a:
  "process_document_from_url example_download ''http://host/a.pdf'' = Inr [example_page_chunk]"
  by (simp add: process_document_from_url_def example_download_def process_pdf_def
      create_text_chunks_def chunk_size_def strip_def is_space_def example_page_chunk_def)

lemma example_stage_b:
  "index_chunks example_encode (new_embedding_service 2) [example_page_chunk] =
     (Inr (), example_page_service)"
  by (simp add: index_chunks_def Let_def embed_texts_def example_encode_def example_vector_def
      faiss_add_def new_embedding_service_def example_page_chunk_def example_page_service_def)

lemma example_context_boom:
  "get_context_for_query example_encode example_page_service ''boom'' max_context_chunks =
     Inl (Exception ''model failure'')"
  by (simp add: get_context_for_query_def search_similar_def embed_texts_def example_encode_def
      example_page_service_def)

lemma example_context_find:
  "get_context_for_query example_encode example_page_service ''find'' max_context_chunks =
     Inr (''[Context 1] (Score: 0.80)'' @ [CHR 0x0A] @ ''alpha'')"
  by (simp add: get_context_for_query_def search_similar_def embed_texts_def example_encode_def
      example_vector_def example_page_service_def faiss_search_def ranked_def inner_product_def
      enumerate_eq_zip py_index_def Let_def upt_rec take_Cons' max_context_chunks_def
      with_score_def to_dict_def example_page_chunk_def format_2f_examples str_int_def
      str_nat_digit digit_char_def collect_results_pads)

lemma process_request_stage_a:
  "process_document_from_url download url = Inl e \<Longrightarrow>
   process_request download encode generate_content svc url questions =
     (Inl (failed_request e), svc)"
  by (simp add: process_request_def)

lemma process_request_stage_b:
  "process_document_from_url download url = Inr chunks \<Longrightarrow>
   index_chunks encode svc chunks = (Inl e, svc') \<Longrightarrow>
   process_request download encode generate_content svc url questions =
     (Inl (failed_request e), svc')"
  by (simp add: process_request_def)

lemma process_request_stage_c_ok:
  assumes "process_document_from_url download url = Inr chunks"
      and "index_chunks encode svc chunks = (Inr (), svc')"
      and "\<forall>q \<in> set questions.
             \<exists>c. get_context_for_query encode svc' q max_context_chunks = Inr c"
  shows "\<exists>answers contexts.
           process_request download encode generate_content svc url questions
             = (Inr answers, svc') \<and>
           length answers = length questions \<and>
           length contexts = length questions \<and>
           (\<forall>i < length questions.
              get_context_for_query encode svc' (questions ! i) max_context_chunks
                = Inr (contexts ! i) \<and>
              answers ! i = generate_answer generate_content (questions ! i) (contexts ! i)) \<and>
           (\<forall>completion_order. set completion_order = {0..<length questions} \<longrightarrow>
              completed_slots (generation_tasks generate_content questions contexts)
                completion_order = map (\<lambda>answer. Some (Inr answer)) answers)"
proof -
  from retrieve_contexts_succeeds [OF assms(3)] obtain contexts where
    r: "retrieve_contexts encode svc' questions = Inr contexts" by blast
  then have la: "list_all2 (\<lambda>q c. get_context_for_query encode svc' q max_context_chunks = Inr c)
     questions contexts" by (simp add: retrieve_contexts_Inr)
  then have len: "length questions = length contexts" by (rule list_all2_lengthD)
  let ?answers = "generate_batch_answers generate_content questions contexts"
  have p: "process_request download encode generate_content svc url questions
      = (Inr ?answers, svc')"
    using assms(1,2) r by (simp add: process_request_def process_questions_with_gemini_def)
  have l: "length ?answers = length questions"
    using len by (rule length_generate_batch_answers)
  have n: "\<forall>i < length questions.
      get_context_for_query encode svc' (questions ! i) max_context_chunks = Inr (contexts ! i) \<and>
      ?answers ! i = generate_answer generate_content (questions ! i) (contexts ! i)"
  proof (intro allI impI conjI)
    fix i assume i: "i < length questions"
    from la i show "get_context_for_query encode svc' (questions ! i) max_context_chunks
        = Inr (contexts ! i)" by (rule list_all2_nthD)
    show "?answers ! i = generate_answer generate_content (questions ! i) (contexts ! i)"
      using len i by (rule generate_batch_answers_nth)
  qed
  have o: "\<forall>completion_order. set completion_order = {0..<length questions} \<longrightarrow>
              completed_slots (generation_tasks generate_content questions contexts)
                completion_order = map (\<lambda>answer. Some (Inr answer)) ?answers"
    using completed_generation_tasks [OF _ len] by blast
  from p l len n o show ?thesis
    by (intro exI [of _ ?answers] exI [of _ contexts]) simp
qed

lemma process_request_stage_c_fails:
  assumes "process_document_from_url download url = Inr chunks"
      and "index_chunks encode svc chunks = (Inr (), svc')"
      and "\<exists>q \<in> set questions.
             \<exists>e. get_context_for_query encode svc' q max_context_chunks = Inl e"
  shows "\<exists>e. process_request download encode generate_content svc url questions
               = (Inl (failed_request e), svc')"
proof -
  from retrieve_contexts_fails [OF assms(3)] obtain e where
    "retrieve_contexts encode svc' questions = Inl e" by blast
  then have "process_request download encode generate_content svc url questions
               = (Inl (failed_request e), svc')"
    using assms(1,2) by (simp add: process_request_def process_questions_with_gemini_def)
  then show ?thesis by blast
qed

lemma example_context_again:
  "get_context_for_query example_encode example_page_service ''again'' max_context_chunks =
     Inr (''[Context 1] (Score: 0.80)'' @ [CHR 0x0A] @ ''alpha'')"
  by (simp add: get_context_for_query_def search_similar_def embed_texts_def example_encode_def
      example_vector_def example_page_service_def faiss_search_def ranked_def inner_product_def
      enumerate_eq_zip py_index_def Let_def upt_rec take_Cons' max_context_chunks_def
      with_score_def to_dict_def example_page_chunk_def format_2f_examples str_int_def
      str_nat_digit digit_char_def collect_results_pads)

lemma example_answers:
  "generate_answer example_completion ''find''
     (''[Context 1] (Score: 0.80)'' @ [CHR 0x0A] @ ''alpha'') = ''an answer''"
  "generate_answer example_completion ''again''
     (''[Context 1] (Score: 0.80)'' @ [CHR 0x0A] @ ''alpha'') = ''an answer''"
  by (simp_all add: generate_answer_def example_completion_def strip_example
      full_prompt_inject user_prompt_def)

text \<open>
  C6, as the code has it. The request raises when the processing of the document raises
  and when the indexing raises. When both have succeeded, it returns the answers exactly
  when the context of every question was retrieved: then there are as many answers as
  questions, the answer at each position is the one generated for the question at that
  position with its context, and in whatever order the generation tasks complete, what they
  record is this list of answers. When the retrieval of some context raises, as it does
  when the embedding model fails on the question, the request raises.
\<close>

theorem process_request_outcome:
  "(process_document_from_url download url = Inl e \<longrightarrow>
      process_request download encode generate_content svc url questions =
        (Inl (failed_request e), svc)) \<and>
   (process_document_from_url download url = Inr chunks \<and>
    index_chunks encode svc chunks = (Inl e, svc') \<longrightarrow>
      process_request download encode generate_content svc url questions =
        (Inl (failed_request e), svc')) \<and>
   (process_document_from_url download url = Inr chunks \<and>
    index_chunks encode svc chunks = (Inr (), svc') \<longrightarrow>
      ((\<forall>q \<in> set questions.
          \<exists>c. get_context_for_query encode svc' q max_context_chunks = Inr c) \<longrightarrow>
       (\<exists>answers contexts.
           process_request download encode generate_content svc url questions
             = (Inr answers, svc') \<and>
           length answers = length questions \<and>
           length contexts = length questions \<and>
           (\<forall>i < length questions.
              get_context_for_query encode svc' (questions ! i) max_context_chunks
                = Inr (contexts ! i) \<and>
              answers ! i = generate_answer generate_content (questions ! i) (contexts ! i)) \<and>
           (\<forall>completion_order. set completion_order = {0..<length questions} \<longrightarrow>
              completed_slots (generation_tasks generate_content questions contexts)
                completion_order = map (\<lambda>answer. Some (Inr answer)) answers))) \<and>
      ((\<exists>q \<in> set questions.
          \<exists>e'. get_context_for_query encode svc' q max_context_chunks = Inl e') \<longrightarrow>
       (\<exists>e'. process_request download encode generate_content svc url questions
               = (Inl (failed_request e'), svc'))))"
  using process_request_stage_a [of download url e encode generate_content svc questions]
    process_request_stage_b [of download url chunks encode svc e svc' generate_content questions]
    process_request_stage_c_ok [of download url chunks encode svc svc' questions generate_content]
    process_request_stage_c_fails [of download url chunks encode svc svc' questions generate_content]
  by (intro conjI impI) (erule conjE | assumption | blast)+

theorem process_request_outcome_witness:
  "process_request (\<lambda>url. Inl (Exception ''timeout'')) example_encode example_completion
     (new_embedding_service 2) ''http://host/a.pdf'' [''find''] =
     (Inl (Exception ''Failed to process request: Failed to process document: timeout''),
      new_embedding_service 2) \<and>
   fst (process_request (\<lambda>url. Inr (PdfFile [''boom''])) example_encode example_completion
     (new_embedding_service 2) ''http://host/a.pdf'' [''find'']) =
     Inl (Exception ''Failed to process request: model failure'') \<and>
   process_document_from_url example_download ''http://host/a.pdf'' = Inr [example_page_chunk] \<and>
   index_chunks example_encode (new_embedding_service 2) [example_page_chunk] =
     (Inr (), example_page_service) \<and>
   process_request example_download example_encode example_completion (new_embedding_service 2)
     ''http://host/a.pdf'' [''find'', ''again''] =
     (Inr [''an answer'', ''an answer''], example_page_service) \<and>
   completed_slots
     (generation_tasks example_completion [''find'', ''again'']
        [''[Context 1] (Score: 0.80)'' @ [CHR 0x0A] @ ''alpha'',
         ''[Context 1] (Score: 0.80)'' @ [CHR 0x0A] @ ''alpha''])
     [1, 0] = [Some (Inr ''an answer''), Some (Inr ''an answer'')] \<and>
   get_context_for_query example_encode example_page_service ''boom'' max_context_chunks =
     Inl (Exception ''model failure'') \<and>
   fst (process_request example_download example_encode example_completion
     (new_embedding_service 2) ''http://host/a.pdf'' [''find'', ''boom'']) =
     Inl (failed_request (Exception ''model failure''))"
proof -
  let ?url = "''http://host/a.pdf''"
  let ?new = "new_embedding_service 2"
  let ?ctx = "''[Context 1] (Score: 0.80)'' @ [CHR 0x0A] @ ''alpha''"
  note a = example_stage_a and b = example_stage_b
  note cf = example_context_find and ca = example_context_again and cb = example_context_boom
  have da: "process_document_from_url (\<lambda>url. Inl (Exception ''timeout'')) ?url =
      Inl (Exception ''Failed to process document: timeout'')"
    by (simp add: process_document_from_url_def)
  from process_request_outcome [where download = "\<lambda>url. Inl (Exception ''timeout'')"
      and url = ?url and e = "Exception ''Failed to process document: timeout''"
      and encode = example_encode and generate_content = example_completion
      and svc = ?new and questions = "[''find'']"] da
  have A: "process_request (\<lambda>url. Inl (Exception ''timeout'')) example_encode
      example_completion ?new ?url [''find''] =
     (Inl (Exception ''Failed to process request: Failed to process document: timeout''), ?new)"
    by (simp add: failed_request_def)
  let ?boom = "\<lparr>text = ''boom'', chunk_id = ''chunk_0'',
      source_meta = [(''source_url'', VStr ''http://host/a.pdf''), (''page'', VInt 1),
                     (''document_type'', VStr ''pdf''), (''total_pages'', VInt 1),
                     (''chunk_index'', VInt 0)]\<rparr>"
  have db: "process_document_from_url (\<lambda>url. Inr (PdfFile [''boom''])) ?url = Inr [?boom]"
    by (simp add: process_document_from_url_def process_pdf_def create_text_chunks_def
        chunk_size_def strip_def is_space_def)
  have ib: "index_chunks example_encode ?new [?boom] =
      (Inl (Exception ''model failure''), ?new\<lparr>index := [], chunks_metadata := []\<rparr>)"
    by (simp add: index_chunks_def Let_def embed_texts_def example_encode_def)
  from process_request_outcome [where download = "\<lambda>url. Inr (PdfFile [''boom''])"
      and url = ?url and e = "Exception ''model failure''" and chunks = "[?boom]"
      and encode = example_encode and generate_content = example_completion
      and svc = ?new and svc' = "?new\<lparr>index := [], chunks_metadata := []\<rparr>"
      and questions = "[''find'']"] db ib
  have B: "fst (process_request (\<lambda>url. Inr (PdfFile [''boom''])) example_encode
      example_completion ?new ?url [''find'']) =
     Inl (Exception ''Failed to process request: model failure'')"
    by (simp add: failed_request_def)
  note t1 = process_request_outcome [where download = example_download and url = ?url
      and chunks = "[example_page_chunk]" and encode = example_encode
      and generate_content = example_completion and svc = ?new and svc' = example_page_service
      and questions = "[''find'', ''again'']",
      THEN conjunct2, THEN conjunct2, THEN mp, OF conjI, OF a b]
  note t2 = process_request_outcome [where download = example_download and url = ?url
      and chunks = "[example_page_chunk]" and encode = example_encode
      and generate_content = example_completion and svc = ?new and svc' = example_page_service
      and questions = "[''find'', ''boom'']",
      THEN conjunct2, THEN conjunct2, THEN mp, OF conjI, OF a b]
  have ok: "\<forall>q \<in> set [''find'', ''again''].
      \<exists>c. get_context_for_query example_encode example_page_service q max_context_chunks = Inr c"
    using cf ca by simp
  from t1 [THEN conjunct1, THEN mp, OF ok]
  obtain answers contexts where
    p: "process_request example_download example_encode example_completion ?new ?url
          [''find'', ''again''] = (Inr answers, example_page_service)"
    and l: "length answers = length [''find'', ''again'']"
    and lc: "length contexts = length [''find'', ''again'']"
    and n: "\<forall>i < length [''find'', ''again''].
          get_context_for_query example_encode example_page_service ([''find'', ''again''] ! i)
            max_context_chunks = Inr (contexts ! i) \<and>
          answers ! i = generate_answer example_completion ([''find'', ''again''] ! i) (contexts ! i)"
    and o: "\<forall>completion_order. set completion_order = {0..<length [''find'', ''again'']} \<longrightarrow>
          completed_slots (generation_tasks example_completion [''find'', ''again''] contexts)
            completion_order = map (\<lambda>answer. Some (Inr answer)) answers"
    by blast
  from n have n0: "get_context_for_query example_encode example_page_service ''find''
            max_context_chunks = Inr (contexts ! 0)"
      "answers ! 0 = generate_answer example_completion ''find'' (contexts ! 0)"
    and n1: "get_context_for_query example_encode example_page_service ''again''
            max_context_chunks = Inr (contexts ! 1)"
      "answers ! 1 = generate_answer example_completion ''again'' (contexts ! 1)"
    by force+
  from n0(1) cf have c0: "contexts ! 0 = ?ctx" by simp
  from n1(1) ca have c1: "contexts ! 1 = ?ctx" by simp
  from lc c0 c1 have contexts: "contexts = [?ctx, ?ctx]"
    by (cases contexts; cases "tl contexts") auto
  from n0(2) n1(2) c0 c1 have "answers ! 0 = ''an answer''" "answers ! 1 = ''an answer''"
    using example_answers by simp_all
  with l have answers: "answers = [''an answer'', ''an answer'']"
    by (cases answers; cases "tl answers") auto
  have "set [1, 0 :: nat] = {0..<length [''find'', ''again'']}" by auto
  with o have C: "completed_slots (generation_tasks example_completion [''find'', ''again'']
      [?ctx, ?ctx]) [1, 0] = [Some (Inr ''an answer''), Some (Inr ''an answer'')]"
    unfolding contexts answers by simp
  have bad: "\<exists>q \<in> set [''find'', ''boom''].
      \<exists>e. get_context_for_query example_encode example_page_service q max_context_chunks = Inl e"
    using cb by simp
  from t2 [THEN conjunct2, THEN mp, OF bad]
  obtain e where
    f: "process_request example_download example_encode example_completion ?new ?url
          [''find'', ''boom''] = (Inl (failed_request e), example_page_service)"
    by blast
  have "retrieve_contexts example_encode example_page_service [''find'', ''boom''] =
      Inl (Exception ''model failure'')"
    by (simp add: cf cb)
  then have "process_request example_download example_encode example_completion ?new ?url
          [''find'', ''boom''] =
        (Inl (failed_request (Exception ''model failure'')), example_page_service)"
    by (simp add: process_request_def process_questions_with_gemini_def a b)
  then have D: "fst (process_request example_download example_encode example_completion ?new ?url
          [''find'', ''boom'']) = Inl (failed_request (Exception ''model failure''))"
    using f by simp
  from p answers have P: "process_request example_download example_encode example_completion
      ?new ?url [''find'', ''again''] = (Inr [''an answer'', ''an answer''], example_page_service)"
    by simp
  show ?thesis using A B a b P C cb D by (intro conjI) assumption+
qed

text \<open>
  The claim as stated, that the request fails on an error of the first two steps only,
  fails where the embedding model raises on a question: both steps succeed and the request
  raises.
\<close>

theorem stage_c_counterexample:
  "process_document_from_url example_download ''http://host/a.pdf'' = Inr [example_page_chunk] \<and>
   index_chunks example_encode (new_embedding_service 2) [example_page_chunk] =
     (Inr (), example_page_service) \<and>
   process_request example_download example_encode example_completion (new_embedding_service 2)
     ''http://host/a.pdf'' [''boom''] =
     (Inl (Exception ''Failed to process request: model failure''), example_page_service)"
  by (simp add: example_stage_a example_stage_b process_request_def
      process_questions_with_gemini_def example_context_boom failed_request_def)

end
